theory Spec2Isabelle
  imports Complex_Main "HOL-Library.Stream"
begin

section \<open>Python values, errors and the random source\<close>

text \<open>
  The notebook \<^verbatim>\<open>minst_verification.ipynb\<close> is embedded function by function.
  Python integers are \<^typ>\<open>int\<close>, lists are HOL lists, and every exception the
  notebook's own functions can raise is a value of \<open>py_error\<close>, returned as \<open>Inl\<close>.
\<close>

datatype py_error = IndexError | KeyError | ValueError | RuntimeError | OverflowError

text \<open>
  The module \<^verbatim>\<open>random\<close> keeps a hidden generator state. It is made explicit: the
  state is the stream of raw draws still to come, and every call returns the rest of
  the stream. \<^verbatim>\<open>_randbelow(n)\<close> yields a number below \<open>n\<close>; since the stream is
  arbitrary, every outcome the library can produce is the outcome for some stream.
\<close>

type_synonym rng = "nat stream"

definition randbelow :: "nat \<Rightarrow> rng \<Rightarrow> nat \<times> rng" where
  "randbelow n g = (shd g mod n, stl g)"

text \<open>
  \<^verbatim>\<open>random.choice(seq)\<close>: raises \<^verbatim>\<open>IndexError\<close> on an empty sequence, otherwise
  returns \<^verbatim>\<open>seq[_randbelow(len(seq))]\<close>.
\<close>

definition choice :: "'a list \<Rightarrow> rng \<Rightarrow> py_error + ('a \<times> rng)" where
  "choice seq g =
     (if length seq = 0 then Inl IndexError
      else (case randbelow (length seq) g of (j, g') \<Rightarrow> Inr (seq ! j, g')))"

text \<open>
  \<^verbatim>\<open>random.sample(population, k)\<close>: raises \<^verbatim>\<open>ValueError\<close> unless
  \<open>0 \<le> k \<le> len(population)\<close>; otherwise it selects \<open>k\<close> distinct positions. The
  selection is the library's pool algorithm: draw \<open>j\<close> below the current pool size,
  take \<^verbatim>\<open>pool[j]\<close>, move the last pool entry into the vacancy and shrink the pool by
  one. (For populations of more than 21 entries the library draws positions with
  rejection of repeats instead; the possible results are the same.)
\<close>

fun sample_pool :: "'a list \<Rightarrow> nat \<Rightarrow> rng \<Rightarrow> 'a list \<times> rng" where
  "sample_pool pool 0 g = ([], g)"
| "sample_pool pool (Suc k) g =
     (case randbelow (length pool) g of (j, g1) \<Rightarrow>
        (case sample_pool (butlast (pool[j := last pool])) k g1 of (rest, g2) \<Rightarrow>
           (pool ! j # rest, g2)))"

definition sample :: "'a list \<Rightarrow> int \<Rightarrow> rng \<Rightarrow> py_error + ('a list \<times> rng)" where
  "sample population k g =
     (if \<not> (0 \<le> k \<and> k \<le> int (length population)) then Inl ValueError
      else Inr (sample_pool population (nat k) g))"

text \<open>
  Indexing a Python sequence with an integer: negative indices count from the end,
  anything out of range raises \<^verbatim>\<open>IndexError\<close>.
\<close>

definition py_getitem :: "'a list \<Rightarrow> int \<Rightarrow> py_error + 'a" where
  "py_getitem xs i =
     (if 0 \<le> i \<and> i < int (length xs) then Inr (xs ! nat i)
      else if i < 0 \<and> - int (length xs) \<le> i then Inr (xs ! nat (int (length xs) + i))
      else Inl IndexError)"

definition py_range :: "nat \<Rightarrow> int list" where
  "py_range n = map int [0..<n]"

text \<open>
  A \<^verbatim>\<open>dict\<close> keeps its keys in insertion order, and \<^verbatim>\<open>list(d.keys())\<close> exposes that
  order to \<^verbatim>\<open>create_pairs\<close>, so a dictionary is an association list. Assigning to a
  key that is present replaces the value in place, assigning to a new key appends.
\<close>

type_synonym ('k, 'v) dict = "('k \<times> 'v) list"

fun dict_setitem :: "'k \<Rightarrow> 'v \<Rightarrow> ('k, 'v) dict \<Rightarrow> ('k, 'v) dict" where
  "dict_setitem k v [] = [(k, v)]"
| "dict_setitem k v (p # d) = (if fst p = k then (k, v) # d else p # dict_setitem k v d)"

definition dict_contains :: "('k, 'v) dict \<Rightarrow> 'k \<Rightarrow> bool" where
  "dict_contains d k = (map_of d k \<noteq> None)"

definition dict_getitem :: "('k, 'v) dict \<Rightarrow> 'k \<Rightarrow> py_error + 'v" where
  "dict_getitem d k = (case map_of d k of None \<Rightarrow> Inl KeyError | Some v \<Rightarrow> Inr v)"

definition dict_keys :: "('k, 'v) dict \<Rightarrow> 'k list" where
  "dict_keys d = map fst d"

section \<open>Label index: \<^verbatim>\<open>organize_by_label\<close>\<close>

text \<open>
  The base dataset exposes \<^verbatim>\<open>len(dataset)\<close> and \<^verbatim>\<open>dataset[idx]\<close>, which returns the
  pair (image, label). It is the list of its samples.
\<close>

type_synonym ('img, 'lbl) dataset = "('img \<times> 'lbl) list"

type_synonym 'lbl label_dict = "('lbl, int list) dict"

text \<open>
  One pass of the loop body:
  \<^verbatim>\<open>
  _, label = dataset[idx]
  if label not in label_dict:
      label_dict[label] = []
  label_dict[label].append(idx)
  \<close>
\<close>

definition organize_step ::
  "('img, 'lbl) dataset \<Rightarrow> 'lbl label_dict \<Rightarrow> int \<Rightarrow> py_error + 'lbl label_dict" where
  "organize_step dataset label_dict idx =
     (case py_getitem dataset idx of
        Inl e \<Rightarrow> Inl e
      | Inr (_, label) \<Rightarrow>
          (let label_dict1 =
                 (if \<not> dict_contains label_dict label
                  then dict_setitem label [] label_dict else label_dict)
           in case dict_getitem label_dict1 label of
                Inl e \<Rightarrow> Inl e
              | Inr bucket \<Rightarrow> Inr (dict_setitem label (bucket @ [idx]) label_dict1)))"

fun organize_loop ::
  "('img, 'lbl) dataset \<Rightarrow> int list \<Rightarrow> 'lbl label_dict \<Rightarrow> py_error + 'lbl label_dict" where
  "organize_loop dataset [] label_dict = Inr label_dict"
| "organize_loop dataset (idx # rest) label_dict =
     (case organize_step dataset label_dict idx of
        Inl e \<Rightarrow> Inl e
      | Inr label_dict' \<Rightarrow> organize_loop dataset rest label_dict')"

definition organize_by_label :: "('img, 'lbl) dataset \<Rightarrow> py_error + 'lbl label_dict" where
  "organize_by_label dataset = organize_loop dataset (py_range (length dataset)) []"

text \<open>Two notions used to state what the index contains: the label the base dataset
  has at an index, and the bucket of a label (empty when the label is not a key).\<close>

definition label_at :: "('img, 'lbl) dataset \<Rightarrow> int \<Rightarrow> 'lbl" where
  "label_at ds idx = snd (ds ! nat idx)"

definition bucket_of :: "'lbl label_dict \<Rightarrow> 'lbl \<Rightarrow> int list" where
  "bucket_of d L = (case map_of d L of None \<Rightarrow> [] | Some b \<Rightarrow> b)"

section \<open>Pair sampler: \<^verbatim>\<open>create_pairs\<close>\<close>

text \<open>A pair record is \<^verbatim>\<open>(idx1, idx2, similarity)\<close>; the loop state is the list built so
  far together with the generator state.\<close>

type_synonym pair_record = "int \<times> int \<times> int"

type_synonym sampler_state = "pair_record list \<times> rng"

text \<open>
  \<^verbatim>\<open>
  label = random.choice(labels)
  if len(label_dict[label]) >= 2:
      idx1, idx2 = random.sample(label_dict[label], 2)
      pairs.append((idx1, idx2, 0))
  \<close>
\<close>

definition positive_pair ::
  "'lbl label_dict \<Rightarrow> 'lbl list \<Rightarrow> sampler_state \<Rightarrow> py_error + sampler_state" where
  "positive_pair label_dict labels st =
     (case st of (pairs, g) \<Rightarrow>
      (case choice labels g of
         Inl e \<Rightarrow> Inl e
       | Inr (label, g1) \<Rightarrow>
          (case dict_getitem label_dict label of
             Inl e \<Rightarrow> Inl e
           | Inr bucket \<Rightarrow>
              if 2 \<le> length bucket then
                (case sample bucket 2 g1 of
                   Inl e \<Rightarrow> Inl e
                 | Inr (s, g2) \<Rightarrow>
                    (case s of
                       [idx1, idx2] \<Rightarrow> Inr (pairs @ [(idx1, idx2, 0)], g2)
                     | _ \<Rightarrow> Inl ValueError))
              else Inr (pairs, g1))))"

text \<open>
  \<^verbatim>\<open>
  label1, label2 = random.sample(labels, 2)
  idx1 = random.choice(label_dict[label1])
  idx2 = random.choice(label_dict[label2])
  pairs.append((idx1, idx2, 1))
  \<close>
\<close>

definition negative_pair ::
  "'lbl label_dict \<Rightarrow> 'lbl list \<Rightarrow> sampler_state \<Rightarrow> py_error + sampler_state" where
  "negative_pair label_dict labels st =
     (case st of (pairs, g) \<Rightarrow>
      (case sample labels 2 g of
         Inl e \<Rightarrow> Inl e
       | Inr (s, g1) \<Rightarrow>
          (case s of
             [label1, label2] \<Rightarrow>
               (case dict_getitem label_dict label1 of
                  Inl e \<Rightarrow> Inl e
                | Inr bucket1 \<Rightarrow>
                   (case choice bucket1 g1 of
                      Inl e \<Rightarrow> Inl e
                    | Inr (idx1, g2) \<Rightarrow>
                       (case dict_getitem label_dict label2 of
                          Inl e \<Rightarrow> Inl e
                        | Inr bucket2 \<Rightarrow>
                           (case choice bucket2 g2 of
                              Inl e \<Rightarrow> Inl e
                            | Inr (idx2, g3) \<Rightarrow> Inr (pairs @ [(idx1, idx2, 1)], g3)))))
           | _ \<Rightarrow> Inl ValueError)))"

definition pair_iteration ::
  "'lbl label_dict \<Rightarrow> 'lbl list \<Rightarrow> sampler_state \<Rightarrow> py_error + sampler_state" where
  "pair_iteration label_dict labels st =
     (case positive_pair label_dict labels st of
        Inl e \<Rightarrow> Inl e
      | Inr st1 \<Rightarrow> negative_pair label_dict labels st1)"

fun pairs_loop ::
  "nat \<Rightarrow> 'lbl label_dict \<Rightarrow> 'lbl list \<Rightarrow> sampler_state \<Rightarrow> py_error + sampler_state" where
  "pairs_loop 0 label_dict labels st = Inr st"
| "pairs_loop (Suc n) label_dict labels st =
     (case pair_iteration label_dict labels st of
        Inl e \<Rightarrow> Inl e
      | Inr st' \<Rightarrow> pairs_loop n label_dict labels st')"

text \<open>
  \<^verbatim>\<open>create_pairs(dataset, label_dict, num_pairs)\<close>. The parameter \<^verbatim>\<open>dataset\<close> is never
  read. \<^verbatim>\<open>range(num_pairs)\<close> is empty for a negative count. The result is the list of
  pairs, and the generator state left behind.
\<close>

definition create_pairs ::
  "('img, 'lbl) dataset \<Rightarrow> 'lbl label_dict \<Rightarrow> int \<Rightarrow> rng \<Rightarrow> py_error + sampler_state" where
  "create_pairs dataset label_dict num_pairs g =
     pairs_loop (nat num_pairs) label_dict (dict_keys label_dict) ([], g)"

text \<open>
  Three notions used to state what the sampler produces. A same-bucket record takes
  two different positions of one bucket and carries similarity 0; a cross-bucket
  record takes one position each from the buckets of two different dictionary
  entries and carries similarity 1. The chunk of an iteration that starts in
  generator state \<open>g\<close> is what that iteration appends: for the label the first draw
  chooses, a same-bucket record if its bucket has two members or more, and then a
  cross-bucket record in any case.
\<close>

definition same_bucket_record :: "'lbl label_dict \<Rightarrow> pair_record \<Rightarrow> bool" where
  "same_bucket_record d r =
     (\<exists>p i j. p < length d \<and> i < length (snd (d ! p)) \<and> j < length (snd (d ! p)) \<and> i \<noteq> j
        \<and> r = (snd (d ! p) ! i, snd (d ! p) ! j, 0))"

definition cross_bucket_record :: "'lbl label_dict \<Rightarrow> pair_record \<Rightarrow> bool" where
  "cross_bucket_record d r =
     (\<exists>p q i j. p < length d \<and> q < length d \<and> p \<noteq> q
        \<and> i < length (snd (d ! p)) \<and> j < length (snd (d ! q))
        \<and> r = (snd (d ! p) ! i, snd (d ! q) ! j, 1))"

definition iteration_chunk :: "'lbl label_dict \<Rightarrow> rng \<Rightarrow> pair_record list \<Rightarrow> bool" where
  "iteration_chunk d g chunk =
     (\<exists>L g1 bucket. choice (dict_keys d) g = Inr (L, g1) \<and> dict_getitem d L = Inr bucket
        \<and> (if 2 \<le> length bucket
            then \<exists>r1 r2. chunk = [r1, r2] \<and> same_bucket_record d r1 \<and> cross_bucket_record d r2
            else \<exists>r2. chunk = [r2] \<and> cross_bucket_record d r2))"

section \<open>Floating-point values\<close>

text \<open>
  A float is a real number, an infinity or NaN. The type serves for Python's
  floats (binary64) and for the elements of float32 tensors alike; signed zeros
  are not told apart. The comparison \<^verbatim>\<open><\<close> follows IEEE 754: it is false as soon as
  one side is NaN, and no value is below itself.
\<close>

datatype ieee = Fin real | PInf | NInf | NaN

fun float_less :: "ieee \<Rightarrow> ieee \<Rightarrow> bool" where
  "float_less (Fin a) (Fin b) = (a < b)"
| "float_less (Fin a) PInf = True"
| "float_less NInf (Fin b) = True"
| "float_less NInf PInf = True"
| "float_less _ _ = False"

definition is_fin :: "ieee \<Rightarrow> bool" where
  "is_fin v = (case v of Fin _ \<Rightarrow> True | _ \<Rightarrow> False)"

text \<open>
  The result of an arithmetic operation on two finite floats is the exact result
  rounded to the format, which includes the overflow to an infinity. The rounding
  of float32 is a parameter \<open>R\<close> of the operations: they are defined for every
  rounding function, and a property that needs something of the rounding says so.
  The outcomes for infinities and NaN are those of IEEE 754: \<open>inf - inf\<close> and
  \<open>0 * inf\<close> are NaN, and NaN propagates.
\<close>

type_synonym rounding = "real \<Rightarrow> ieee"

fun fneg :: "ieee \<Rightarrow> ieee" where
  "fneg (Fin x) = Fin (- x)"
| "fneg PInf = NInf"
| "fneg NInf = PInf"
| "fneg NaN = NaN"

fun fadd :: "rounding \<Rightarrow> ieee \<Rightarrow> ieee \<Rightarrow> ieee" where
  "fadd R (Fin x) (Fin y) = R (x + y)"
| "fadd R NaN b = NaN"
| "fadd R a NaN = NaN"
| "fadd R PInf NInf = NaN"
| "fadd R NInf PInf = NaN"
| "fadd R PInf b = PInf"
| "fadd R a PInf = PInf"
| "fadd R NInf b = NInf"
| "fadd R a NInf = NInf"

definition fsub :: "rounding \<Rightarrow> ieee \<Rightarrow> ieee \<Rightarrow> ieee" where
  "fsub R a b = fadd R a (fneg b)"

definition signed_inf :: "real \<Rightarrow> ieee" where
  "signed_inf x = (if x = 0 then NaN else if 0 < x then PInf else NInf)"

fun fmul :: "rounding \<Rightarrow> ieee \<Rightarrow> ieee \<Rightarrow> ieee" where
  "fmul R (Fin x) (Fin y) = R (x * y)"
| "fmul R NaN b = NaN"
| "fmul R a NaN = NaN"
| "fmul R (Fin x) PInf = signed_inf x"
| "fmul R (Fin x) NInf = signed_inf (- x)"
| "fmul R PInf (Fin y) = signed_inf y"
| "fmul R NInf (Fin y) = signed_inf (- y)"
| "fmul R PInf PInf = PInf"
| "fmul R NInf NInf = PInf"
| "fmul R PInf NInf = NInf"
| "fmul R NInf PInf = NInf"

fun fsqrt :: "rounding \<Rightarrow> ieee \<Rightarrow> ieee" where
  "fsqrt R (Fin x) = (if x < 0 then NaN else R (sqrt x))"
| "fsqrt R PInf = PInf"
| "fsqrt R NInf = NaN"
| "fsqrt R NaN = NaN"

text \<open>
  The rounding of float32 itself, to nearest with ties to even: a result \<open>x\<close> with
  \<open>2\<^sup>e \<le> \<bar>x\<bar> < 2\<^sup>e\<^sup>+\<^sup>1\<close> is rounded to a multiple of \<open>2\<^sup>e\<^sup>-\<^sup>2\<^sup>3\<close> (of \<open>2\<^sup>-\<^sup>1\<^sup>4\<^sup>9\<close> in the
  subnormal range), and a rounded result of magnitude \<open>2\<^sup>1\<^sup>2\<^sup>8\<close> or more is an
  infinity.
\<close>

definition nearest_even :: "real \<Rightarrow> int" where
  "nearest_even t =
     (let f = \<lfloor>t\<rfloor>; r = t - of_int f
      in if r < 1 / 2 then f else if 1 / 2 < r then f + 1 else if even f then f else f + 1)"

definition float32_round :: rounding where
  "float32_round x =
     (if x = 0 then Fin 0
      else let e = max \<lfloor>log 2 \<bar>x\<bar>\<rfloor> (- 126);
               q = 2 powi (e - 23);
               y = of_int (nearest_even (x / q)) * q
           in if 2 ^ 128 \<le> y then PInf else if y \<le> - (2 ^ 128) then NInf else Fin y)"

section \<open>Paired dataset view: \<^verbatim>\<open>ContrastiveMNISTDataset\<close>\<close>

text \<open>
  \<^verbatim>\<open>torch.tensor(label, dtype=torch.float32)\<close> turns the Python integer into a
  float32 in two steps: the integer becomes a Python float, rounded to the 53
  significant bits of binary64 with ties to even (\<^verbatim>\<open>OverflowError\<close> when the result is
  beyond the range of binary64), and that float is cast to float32, rounded to 24
  significant bits with ties to even (an infinity when the result is beyond the range
  of float32). Roundings of integers are integers, so they are computed on \<^typ>\<open>int\<close>.
\<close>

fun bit_length :: "nat \<Rightarrow> nat" where
  "bit_length n = (if n = 0 then 0 else Suc (bit_length (n div 2)))"

definition round_half_even :: "int \<Rightarrow> int \<Rightarrow> int" where
  "round_half_even q n =
     (let m = n div q; r = n mod q
      in if 2 * r < q then m * q
         else if q < 2 * r then (m + 1) * q
         else if even m then m * q else (m + 1) * q)"

definition round_to_bits :: "nat \<Rightarrow> int \<Rightarrow> int" where
  "round_to_bits p n =
     (let len = bit_length (nat \<bar>n\<bar>)
      in if len \<le> p then n else round_half_even (2 ^ (len - p)) n)"

definition int_to_double :: "int \<Rightarrow> py_error + int" where
  "int_to_double n =
     (let r = round_to_bits 53 n
      in if 2 ^ 1024 \<le> \<bar>r\<bar> then Inl OverflowError else Inr r)"

definition double_to_float32 :: "int \<Rightarrow> ieee" where
  "double_to_float32 r =
     (let f = round_to_bits 24 r
      in if 2 ^ 128 \<le> f then PInf else if f \<le> - (2 ^ 128) then NInf
         else Fin (real_of_int f))"

definition tensor_float32 :: "int \<Rightarrow> py_error + ieee" where
  "tensor_float32 label =
     (case int_to_double label of Inl e \<Rightarrow> Inl e | Inr r \<Rightarrow> Inr (double_to_float32 r))"

text \<open>The object stores a reference to the base dataset and the list of pair records.\<close>

record ('img, 'lbl) ContrastiveMNISTDataset =
  dataset :: "('img, 'lbl) dataset"
  pairs :: "pair_record list"

definition init_view ::
  "('img, 'lbl) dataset \<Rightarrow> pair_record list \<Rightarrow> ('img, 'lbl) ContrastiveMNISTDataset" where
  "init_view ds ps = \<lparr>dataset = ds, pairs = ps\<rparr>"

definition len_view :: "('img, 'lbl) ContrastiveMNISTDataset \<Rightarrow> int" where
  "len_view self = int (length (pairs self))"

text \<open>
  \<^verbatim>\<open>
  idx1, idx2, label = self.pairs[idx]
  img1, _ = self.dataset[idx1]
  img2, _ = self.dataset[idx2]
  return (img1, img2), torch.tensor(label, dtype=torch.float32)
  \<close>
\<close>

definition getitem_view ::
  "('img, 'lbl) ContrastiveMNISTDataset \<Rightarrow> int \<Rightarrow> py_error + (('img \<times> 'img) \<times> ieee)" where
  "getitem_view self idx =
     (case py_getitem (pairs self) idx of
        Inl e \<Rightarrow> Inl e
      | Inr (idx1, idx2, label) \<Rightarrow>
         (case py_getitem (dataset self) idx1 of
            Inl e \<Rightarrow> Inl e
          | Inr (img1, _) \<Rightarrow>
             (case py_getitem (dataset self) idx2 of
                Inl e \<Rightarrow> Inl e
              | Inr (img2, _) \<Rightarrow>
                 (case tensor_float32 label of
                    Inl e \<Rightarrow> Inl e
                  | Inr t \<Rightarrow> Inr ((img1, img2), t)))))"

section \<open>Tensors\<close>

text \<open>
  A float32 tensor is a nested list of floats. Elementwise operations of two
  tensors broadcast: along one dimension the sizes must agree or one of them must
  be 1, anything else raises \<^verbatim>\<open>RuntimeError\<close>.
\<close>

type_synonym tensor1 = "ieee list"

type_synonym tensor2 = "ieee list list"

fun collect :: "(py_error + 'a) list \<Rightarrow> py_error + 'a list" where
  "collect [] = Inr []"
| "collect (r # rs) =
     (case r of
        Inl e \<Rightarrow> Inl e
      | Inr x \<Rightarrow> (case collect rs of Inl e \<Rightarrow> Inl e | Inr xs \<Rightarrow> Inr (x # xs)))"

definition broadcast ::
  "('a \<Rightarrow> 'b \<Rightarrow> py_error + 'c) \<Rightarrow> 'a list \<Rightarrow> 'b list \<Rightarrow> py_error + 'c list" where
  "broadcast f xs ys =
     (if length xs = length ys then collect (map2 f xs ys)
      else if length xs = 1 then collect (map (f (hd xs)) ys)
      else if length ys = 1 then collect (map (\<lambda>x. f x (hd ys)) xs)
      else Inl RuntimeError)"

definition tensor1_op :: "(ieee \<Rightarrow> ieee \<Rightarrow> ieee) \<Rightarrow> tensor1 \<Rightarrow> tensor1 \<Rightarrow> py_error + tensor1" where
  "tensor1_op f = broadcast (\<lambda>a b. Inr (f a b))"

definition tensor2_op :: "(ieee \<Rightarrow> ieee \<Rightarrow> ieee) \<Rightarrow> tensor2 \<Rightarrow> tensor2 \<Rightarrow> py_error + tensor2" where
  "tensor2_op f = broadcast (tensor1_op f)"

text \<open>
  Reductions. The sum adds the elements one after the other, each addition
  rounded; the library does not fix the order of its additions, and nothing proved
  below depends on it. \<^verbatim>\<open>torch.mean\<close> divides the sum by the number of elements and is
  NaN for a tensor without elements. \<^verbatim>\<open>torch.clamp(x, min=lo)\<close> keeps NaN.
\<close>

fun fsum :: "rounding \<Rightarrow> tensor1 \<Rightarrow> ieee" where
  "fsum R [] = Fin 0"
| "fsum R (x # xs) = foldl (fadd R) x xs"

fun fdiv_count :: "rounding \<Rightarrow> ieee \<Rightarrow> nat \<Rightarrow> ieee" where
  "fdiv_count R (Fin x) n = R (x / real n)"
| "fdiv_count R v n = v"

definition torch_mean :: "rounding \<Rightarrow> tensor1 \<Rightarrow> ieee" where
  "torch_mean R t = (if length t = 0 then NaN else fdiv_count R (fsum R t) (length t))"

fun clamp_min :: "ieee \<Rightarrow> real \<Rightarrow> ieee" where
  "clamp_min (Fin x) lo = Fin (max x lo)"
| "clamp_min PInf lo = PInf"
| "clamp_min NInf lo = Fin lo"
| "clamp_min NaN lo = NaN"

definition fpow2 :: "rounding \<Rightarrow> ieee \<Rightarrow> ieee" where
  "fpow2 R x = fmul R x x"

text \<open>
  \<^verbatim>\<open>torch.nn.functional.pairwise_distance(x1, x2)\<close> with its defaults \<open>p = 2\<close> and
  \<open>eps = 1e-6\<close>: the 2-norm of \<open>x1 - x2 + eps\<close> along the last dimension, the
  scalar \<open>eps\<close> taken to float32.
\<close>

definition eps :: real where
  "eps = 1 / 1000000"

definition norm2 :: "rounding \<Rightarrow> tensor1 \<Rightarrow> ieee" where
  "norm2 R v = fsqrt R (fsum R (map (fpow2 R) v))"

definition pairwise_distance :: "rounding \<Rightarrow> tensor2 \<Rightarrow> tensor2 \<Rightarrow> py_error + tensor1" where
  "pairwise_distance R x1 x2 =
     (case tensor2_op (fsub R) x1 x2 of
        Inl e \<Rightarrow> Inl e
      | Inr diff \<Rightarrow> Inr (map (\<lambda>row. norm2 R (map (\<lambda>c. fadd R c (R eps)) row)) diff))"

section \<open>Embedding model: \<^verbatim>\<open>SiameseNetwork\<close>\<close>

text \<open>
  The module owns two submodules: the pretrained backbone without its last layer
  (\<^verbatim>\<open>feature_extractor\<close>) and the projection head \<^verbatim>\<open>fc\<close>. Both belong to the
  library; each is the function from its input to its output that the module's
  current parameters determine, and may raise. Buffers that a pass only updates
  (the running statistics of batch normalisation in training mode, which do not
  enter the output of that mode) are not represented. The backbone yields a tensor of
  shape \<open>[B, C, H, W]\<close>; \<^verbatim>\<open>x.view(x.size(0), -1)\<close> flattens everything after the
  first dimension and raises for \<open>B = 0\<close>, where the size \<open>-1\<close> stands for is ambiguous.
\<close>

record 'x SiameseNetwork =
  feature_extractor :: "'x \<Rightarrow> py_error + ieee list list list list"
  fc :: "tensor2 \<Rightarrow> py_error + tensor2"

definition view_flat :: "ieee list list list list \<Rightarrow> py_error + tensor2" where
  "view_flat x =
     (if length x = 0 then Inl RuntimeError
      else Inr (map (\<lambda>sample. concat (map concat sample)) x))"

definition forward_once :: "'x SiameseNetwork \<Rightarrow> 'x \<Rightarrow> py_error + tensor2" where
  "forward_once self x =
     (case feature_extractor self x of
        Inl e \<Rightarrow> Inl e
      | Inr x1 \<Rightarrow> (case view_flat x1 of Inl e \<Rightarrow> Inl e | Inr x2 \<Rightarrow> fc self x2))"

definition SiameseNetwork_forward ::
  "'x SiameseNetwork \<Rightarrow> 'x \<Rightarrow> 'x \<Rightarrow> py_error + (tensor2 \<times> tensor2)" where
  "SiameseNetwork_forward self input1 input2 =
     (case forward_once self input1 of
        Inl e \<Rightarrow> Inl e
      | Inr output1 \<Rightarrow>
         (case forward_once self input2 of
            Inl e \<Rightarrow> Inl e
          | Inr output2 \<Rightarrow> Inr (output1, output2)))"

section \<open>Contrastive objective: \<^verbatim>\<open>ContrastiveLoss\<close>\<close>

record ContrastiveLoss =
  margin :: real

text \<open>
  \<^verbatim>\<open>
  euclidean_distance = torch.nn.functional.pairwise_distance(output1, output2)
  loss = torch.mean((1 - label) * torch.pow(euclidean_distance, 2) +
                    label * torch.pow(torch.clamp(self.margin - euclidean_distance, min=0.0), 2))
  \<close>
  The Python scalars \<open>1\<close> and \<^verbatim>\<open>self.margin\<close> enter the float32 operations as
  float32 values; \<open>1\<close> is a float32 as it stands, the margin is rounded.
\<close>

definition ContrastiveLoss_forward ::
  "rounding \<Rightarrow> ContrastiveLoss \<Rightarrow> tensor2 \<Rightarrow> tensor2 \<Rightarrow> tensor1 \<Rightarrow> py_error + ieee" where
  "ContrastiveLoss_forward R self output1 output2 label =
     (case pairwise_distance R output1 output2 of
        Inl e \<Rightarrow> Inl e
      | Inr euclidean_distance \<Rightarrow>
         (case tensor1_op (fmul R) (map (\<lambda>l. fsub R (Fin 1) l) label)
                 (map (fpow2 R) euclidean_distance) of
            Inl e \<Rightarrow> Inl e
          | Inr similar \<Rightarrow>
             (case tensor1_op (fmul R) label
                     (map (fpow2 R)
                        (map (\<lambda>d. clamp_min (fsub R (R (margin self)) d) 0)
                           euclidean_distance)) of
                Inl e \<Rightarrow> Inl e
              | Inr dissimilar \<Rightarrow>
                 (case tensor1_op (fadd R) similar dissimilar of
                    Inl e \<Rightarrow> Inl e
                  | Inr per_pair \<Rightarrow> Inr (torch_mean R per_pair)))))"

text \<open>
  The two products and the loss of one pair with label \<open>l\<close> and distance \<open>d\<close>, as
  \<^verbatim>\<open>forward\<close> computes them elementwise, and the two distances of a pair of
  embeddings that are compared below: the one \<^verbatim>\<open>pairwise_distance\<close> computes, shifted
  by \<open>eps\<close> in every coordinate, and the Euclidean distance of the specification.
\<close>

definition similar_term :: "rounding \<Rightarrow> ieee \<Rightarrow> ieee \<Rightarrow> ieee" where
  "similar_term R l d = fmul R (fsub R (Fin 1) l) (fpow2 R d)"

definition dissimilar_term :: "rounding \<Rightarrow> real \<Rightarrow> ieee \<Rightarrow> ieee \<Rightarrow> ieee" where
  "dissimilar_term R m l d = fmul R l (fpow2 R (clamp_min (fsub R (R m) d) 0))"

definition pair_loss :: "rounding \<Rightarrow> real \<Rightarrow> ieee \<Rightarrow> ieee \<Rightarrow> ieee" where
  "pair_loss R m l d = fadd R (similar_term R l d) (dissimilar_term R m l d)"

definition shifted_distance :: "rounding \<Rightarrow> tensor1 \<Rightarrow> tensor1 \<Rightarrow> ieee" where
  "shifted_distance R a b = norm2 R (map2 (\<lambda>x y. fadd R (fsub R x y) (R eps)) a b)"

definition euclidean :: "rounding \<Rightarrow> tensor1 \<Rightarrow> tensor1 \<Rightarrow> ieee" where
  "euclidean R a b = norm2 R (map2 (fsub R) a b)"

definition batch_mean_loss ::
  "rounding \<Rightarrow> (tensor1 \<Rightarrow> tensor1 \<Rightarrow> ieee) \<Rightarrow> real \<Rightarrow> tensor2 \<Rightarrow> tensor2 \<Rightarrow> tensor1 \<Rightarrow> ieee" where
  "batch_mean_loss R distance m vA vB label =
     torch_mean R
       (map (\<lambda>i. pair_loss R m (label ! i) (distance (vA ! i) (vB ! i))) [0..<length label])"

text \<open>
  What the statements about signs and zeros need of the rounding: 0 and 1 are
  floats and are left as they are, and a result that is not negative (not positive)
  is not rounded to a negative (positive) float. The rounding of float32 has these
  properties, as is shown below. The rounding \<open>exact_below_overflow\<close> has them
  too: it keeps every result below \<open>2\<^sup>1\<^sup>2\<^sup>8\<close> in magnitude as it is and takes the
  others to an infinity. It serves to evaluate examples, on which it differs from
  the rounding of float32 by the rounding errors only.
\<close>

definition sign_preserving :: "rounding \<Rightarrow> bool" where
  "sign_preserving R =
     (R 0 = Fin 0 \<and> R 1 = Fin 1
      \<and> (\<forall>x \<ge> 0. R x = PInf \<or> (\<exists>y \<ge> 0. R x = Fin y))
      \<and> (\<forall>x \<le> 0. R x = NInf \<or> (\<exists>y \<le> 0. R x = Fin y)))"

definition exact_below_overflow :: rounding where
  "exact_below_overflow x =
     (if 2 ^ 128 \<le> x then PInf else if x \<le> - (2 ^ 128) then NInf else Fin x)"

definition not_negative :: "ieee \<Rightarrow> bool" where
  "not_negative v = (case v of Fin y \<Rightarrow> 0 \<le> y | PInf \<Rightarrow> True | _ \<Rightarrow> False)"

section \<open>Training loop\<close>

text \<open>
  The loop keeps three variables of its own, \<^verbatim>\<open>best_val_loss\<close>,
  \<^verbatim>\<open>early_stop_counter\<close> and the file \<^verbatim>\<open>best_siamese_model.pth\<close>; everything else
  (model parameters and buffers, optimizer and scheduler) is the state \<open>'w\<close> of the
  library objects. What the library does to that state is a parameter of the model:
  \<^item> \<open>train_phase\<close>: one pass over the training batches with its optimizer steps;
  \<^item> \<open>validation_phase\<close>: one pass over the validation batches, which yields
    \<^verbatim>\<open>avg_val_loss\<close>, a Python float that may be an infinity or NaN;
  \<^item> \<open>state_dict\<close>: what \<^verbatim>\<open>torch.save(model.state_dict(), ...)\<close> writes;
  \<^item> \<open>scheduler_step\<close>: \<^verbatim>\<open>scheduler.step(avg_val_loss)\<close>.

  A phase that is interrupted or raises is not represented.
\<close>

record ('w, 'p) trainer =
  train_phase :: "'w \<Rightarrow> 'w"
  validation_phase :: "'w \<Rightarrow> ieee \<times> 'w"
  state_dict :: "'w \<Rightarrow> 'p"
  scheduler_step :: "ieee \<Rightarrow> 'w \<Rightarrow> 'w"

text \<open>The field \<open>epochs_done\<close> counts the passes of the loop body that have ended; after
  a pass it is the loop variable \<^verbatim>\<open>epoch\<close> plus one.\<close>

record ('w, 'p) training_state =
  world :: 'w
  best_val_loss :: ieee
  early_stop_counter :: int
  best_checkpoint :: "'p option"
  epochs_done :: nat

definition num_epochs :: int where
  "num_epochs = 50"

definition patience :: int where
  "patience = 10"

text \<open>\<^verbatim>\<open>best_val_loss = float('inf')\<close>, \<^verbatim>\<open>early_stop_counter = 0\<close>, and no file written yet.\<close>

definition initial_state :: "'w \<Rightarrow> ('w, 'p) training_state" where
  "initial_state w =
     \<lparr>world = w, best_val_loss = PInf, early_stop_counter = 0,
      best_checkpoint = None, epochs_done = 0\<rparr>"

text \<open>
  The body of the loop up to and including \<^verbatim>\<open>scheduler.step(avg_val_loss)\<close>:
  \<^verbatim>\<open>
  if avg_val_loss < best_val_loss:
      best_val_loss = avg_val_loss
      early_stop_counter = 0
      torch.save(model.state_dict(), "best_siamese_model.pth")
  else:
      early_stop_counter += 1
  scheduler.step(avg_val_loss)
  \<close>
\<close>

definition checkpoint_decision ::
  "('w, 'p) trainer \<Rightarrow> ieee \<Rightarrow> 'w \<Rightarrow> ('w, 'p) training_state \<Rightarrow> ('w, 'p) training_state" where
  "checkpoint_decision T avg_val_loss w s =
     (if float_less avg_val_loss (best_val_loss s)
      then s\<lparr>best_val_loss := avg_val_loss, early_stop_counter := 0,
              best_checkpoint := Some (state_dict T w)\<rparr>
      else s\<lparr>early_stop_counter := early_stop_counter s + 1\<rparr>)"

definition epoch_body ::
  "('w, 'p) trainer \<Rightarrow> ('w, 'p) training_state \<Rightarrow> ('w, 'p) training_state" where
  "epoch_body T s =
     (case validation_phase T (train_phase T (world s)) of
        (avg_val_loss, w) \<Rightarrow>
          (checkpoint_decision T avg_val_loss w s)
            \<lparr>world := scheduler_step T avg_val_loss w, epochs_done := Suc (epochs_done s)\<rparr>)"

text \<open>
  \<^verbatim>\<open>for epoch in range(num_epochs)\<close>, with the \<^verbatim>\<open>break\<close> at the end of the body
  when \<^verbatim>\<open>early_stop_counter >= patience\<close>. The first argument is the number of
  epochs left in the range.
\<close>

fun training_loop ::
  "('w, 'p) trainer \<Rightarrow> nat \<Rightarrow> ('w, 'p) training_state \<Rightarrow> ('w, 'p) training_state" where
  "training_loop T 0 s = s"
| "training_loop T (Suc n) s =
     (let s' = epoch_body T s
      in if patience \<le> early_stop_counter s' then s' else training_loop T n s')"

definition run_training :: "('w, 'p) trainer \<Rightarrow> 'w \<Rightarrow> ('w, 'p) training_state" where
  "run_training T w = training_loop T (nat num_epochs) (initial_state w)"

text \<open>
  Notions used to state what the loop does over several epochs: the state after
  \<open>n\<close> passes of the loop body without the \<^verbatim>\<open>break\<close>; for the pass that starts in
  state \<open>s\<close>, the validation loss it computes and the parameters it would save; and
  whether that pass improves on \<^verbatim>\<open>best_val_loss\<close>.
\<close>

definition after_epochs :: "('w, 'p) trainer \<Rightarrow> 'w \<Rightarrow> nat \<Rightarrow> ('w, 'p) training_state" where
  "after_epochs T w n = (epoch_body T ^^ n) (initial_state w)"

definition val_loss_of :: "('w, 'p) trainer \<Rightarrow> ('w, 'p) training_state \<Rightarrow> ieee" where
  "val_loss_of T s = fst (validation_phase T (train_phase T (world s)))"

definition params_of :: "('w, 'p) trainer \<Rightarrow> ('w, 'p) training_state \<Rightarrow> 'p" where
  "params_of T s = state_dict T (snd (validation_phase T (train_phase T (world s))))"

definition improves :: "('w, 'p) trainer \<Rightarrow> ('w, 'p) training_state \<Rightarrow> bool" where
  "improves T s = float_less (val_loss_of T s) (best_val_loss s)"

section \<open>Properties of the label index\<close>

lemma map_of_dict_setitem: "map_of (dict_setitem k v d) = (map_of d)(k \<mapsto> v)"
  by (induction d) (auto simp: fun_eq_iff)

lemma keys_dict_setitem: "fst ` set (dict_setitem k v d) = insert k (fst ` set d)"
  by (induction d) auto

lemma distinct_dict_setitem:
  "distinct (map fst d) \<Longrightarrow> distinct (map fst (dict_setitem k v d))"
  by (induction d) (auto simp: keys_dict_setitem)

lemma py_getitem_in_range:
  "0 \<le> i \<Longrightarrow> i < int (length xs) \<Longrightarrow> py_getitem xs i = Inr (xs ! nat i)"
  by (simp add: py_getitem_def)

lemma organize_step_in_range:
  assumes "0 \<le> idx" "idx < int (length ds)"
  shows "\<exists>d'. organize_step ds d idx = Inr d'
           \<and> fst ` set d' = insert (label_at ds idx) (fst ` set d)
           \<and> (distinct (map fst d) \<longrightarrow> distinct (map fst d'))
           \<and> (\<forall>L. bucket_of d' L = bucket_of d L @ (if label_at ds idx = L then [idx] else []))
           \<and> map_of d' (label_at ds idx) \<noteq> None"
  using assms
  by (cases "ds ! nat idx")
     (auto simp: organize_step_def py_getitem_in_range dict_contains_def dict_getitem_def
        map_of_dict_setitem keys_dict_setitem distinct_dict_setitem bucket_of_def label_at_def
        Let_def split: option.splits)

lemma organize_loop_char:
  assumes "\<forall>idx\<in>set idxs. 0 \<le> idx \<and> idx < int (length ds)"
  shows "\<exists>d'. organize_loop ds idxs d = Inr d'
           \<and> fst ` set d' = fst ` set d \<union> label_at ds ` set idxs
           \<and> (distinct (map fst d) \<longrightarrow> distinct (map fst d'))
           \<and> (\<forall>L. bucket_of d' L = bucket_of d L @ filter (\<lambda>i. label_at ds i = L) idxs)"
  using assms
proof (induction idxs arbitrary: d)
  case Nil
  then show ?case by simp
next
  case (Cons idx rest)
  from Cons.prems have r: "0 \<le> idx" "idx < int (length ds)" by auto
  from organize_step_in_range[OF r, of d] obtain d1 where
    s: "organize_step ds d idx = Inr d1"
       "fst ` set d1 = insert (label_at ds idx) (fst ` set d)"
       "distinct (map fst d) \<longrightarrow> distinct (map fst d1)"
       "\<forall>L. bucket_of d1 L = bucket_of d L @ (if label_at ds idx = L then [idx] else [])"
    by blast
  from Cons.prems have "\<forall>idx\<in>set rest. 0 \<le> idx \<and> idx < int (length ds)" by simp
  from Cons.IH[OF this, of d1] obtain d' where
    l: "organize_loop ds rest d1 = Inr d'"
       "fst ` set d' = fst ` set d1 \<union> label_at ds ` set rest"
       "distinct (map fst d1) \<longrightarrow> distinct (map fst d')"
       "\<forall>L. bucket_of d' L = bucket_of d1 L @ filter (\<lambda>i. label_at ds i = L) rest"
    by blast
  show ?case
    using s l by auto
qed

lemma count_list_distinct: "distinct xs \<Longrightarrow> x \<in> set xs \<Longrightarrow> count_list xs x = 1"
  by (induction xs) auto

lemma label_at_range: "label_at ds ` set (py_range (length ds)) = snd ` set ds"
proof (rule set_eqI)
  fix L
  have "L \<in> label_at ds ` set (py_range (length ds)) \<longleftrightarrow> (\<exists>i<length ds. snd (ds ! i) = L)"
    by (auto simp: py_range_def label_at_def image_iff)
  also have "\<dots> \<longleftrightarrow> L \<in> snd ` set ds"
    by (force simp: in_set_conv_nth image_iff)
  finally show "L \<in> label_at ds ` set (py_range (length ds)) \<longleftrightarrow> L \<in> snd ` set ds" .
qed

lemma organize_by_label_char:
  "\<exists>d. organize_by_label ds = Inr d
       \<and> distinct (map fst d)
       \<and> fst ` set d = snd ` set ds
       \<and> (\<forall>L. bucket_of d L = filter (\<lambda>i. label_at ds i = L) (py_range (length ds)))"
proof -
  have "\<forall>idx\<in>set (py_range (length ds)). 0 \<le> idx \<and> idx < int (length ds)"
    by (auto simp: py_range_def)
  from organize_loop_char[OF this, of "[]"] show ?thesis
    by (auto simp: organize_by_label_def label_at_range bucket_of_def)
qed

lemma bucket_of_entry:
  "distinct (map fst d) \<Longrightarrow> (L, b) \<in> set d \<Longrightarrow> bucket_of d L = b"
  by (simp add: bucket_of_def)

lemma bucket_of_key:
  "L \<in> fst ` set d \<Longrightarrow> map_of d L = Some (bucket_of d L)"
  by (auto simp: bucket_of_def map_of_eq_None_iff split: option.splits)

lemma distinct_py_range: "distinct (py_range n)"
  by (simp add: py_range_def distinct_map inj_on_def)

lemma in_py_range: "idx \<in> set (py_range n) \<longleftrightarrow> 0 \<le> idx \<and> idx < int n"
  by (auto simp: py_range_def image_iff intro: rev_bexI[of "nat idx"])

text \<open>
  Claim C8. \<^verbatim>\<open>organize_by_label\<close> runs its loop body over \<^verbatim>\<open>range(len(dataset))\<close>, in
  which every index of the dataset occurs exactly once. It returns (it never
  raises), its keys are exactly the
  labels present in the dataset, each once. Every bucket is non-empty and is the
  ascending list of the indices \<open>0 \<le> idx < len(dataset)\<close> whose label is the bucket's
  key. Every index of the dataset occurs exactly once in the bucket of its own label
  and in no other bucket.
\<close>

theorem organize_by_label_index:
  "organize_by_label ds = organize_loop ds (py_range (length ds)) []
   \<and> (\<forall>i < length ds. count_list (py_range (length ds)) (int i) = 1)
   \<and> length (py_range (length ds)) = length ds
   \<and> (\<exists>d. organize_by_label ds = Inr d
       \<and> distinct (dict_keys d)
       \<and> set (dict_keys d) = snd ` set ds
       \<and> (\<forall>(L, bucket) \<in> set d.
            bucket \<noteq> []
          \<and> bucket = filter (\<lambda>idx. snd (ds ! nat idx) = L) (py_range (length ds))
          \<and> (\<forall>idx \<in> set bucket. 0 \<le> idx \<and> idx < int (length ds) \<and> snd (ds ! nat idx) = L))
       \<and> (\<forall>i < length ds.
            (\<exists>bucket. dict_getitem d (snd (ds ! i)) = Inr bucket \<and> count_list bucket (int i) = 1)
          \<and> (\<forall>(L, bucket) \<in> set d. int i \<in> set bucket \<longrightarrow> L = snd (ds ! i))))"
proof -
  obtain d where d: "organize_by_label ds = Inr d" "distinct (map fst d)"
      "fst ` set d = snd ` set ds"
      "\<forall>L. bucket_of d L = filter (\<lambda>i. label_at ds i = L) (py_range (length ds))"
    using organize_by_label_char[of ds] by blast
  have entry: "b = filter (\<lambda>i. label_at ds i = L) (py_range (length ds))"
    if "(L, b) \<in> set d" for L b
    using that d(2,4) bucket_of_entry by metis
  have nonempty: "b \<noteq> []" if m: "(L, b) \<in> set d" for L b
  proof -
    from m d(3) have "L \<in> snd ` set ds" by force
    then obtain i where i: "i < length ds" "snd (ds ! i) = L"
      by (auto simp: in_set_conv_nth)
    then have "int i \<in> set (filter (\<lambda>i. label_at ds i = L) (py_range (length ds)))"
      by (simp add: in_py_range label_at_def)
    then have "int i \<in> set b" using entry[OF m] by simp
    then show ?thesis by auto
  qed
  have own: "\<exists>bucket. dict_getitem d (snd (ds ! i)) = Inr bucket \<and> count_list bucket (int i) = 1"
    if i: "i < length ds" for i
  proof -
    let ?L = "snd (ds ! i)"
    let ?b = "filter (\<lambda>i. label_at ds i = ?L) (py_range (length ds))"
    from i d(3) have "?L \<in> fst ` set d" by (metis imageI nth_mem)
    from bucket_of_key[OF this] d(4) have g: "dict_getitem d ?L = Inr ?b"
      by (simp add: dict_getitem_def)
    have "int i \<in> set ?b" using i by (simp add: in_py_range label_at_def)
    moreover have "distinct ?b" by (simp add: distinct_py_range)
    ultimately have "count_list ?b (int i) = 1"
      by (simp add: count_list_distinct)
    with g show ?thesis by blast
  qed
  have keys: "distinct (dict_keys d)" "set (dict_keys d) = snd ` set ds"
    using d(2,3) by (simp_all add: dict_keys_def)
  have buckets: "\<forall>(L, bucket) \<in> set d.
            bucket \<noteq> []
          \<and> bucket = filter (\<lambda>idx. snd (ds ! nat idx) = L) (py_range (length ds))
          \<and> (\<forall>idx \<in> set bucket. 0 \<le> idx \<and> idx < int (length ds) \<and> snd (ds ! nat idx) = L)"
  proof -
    have "b \<noteq> []
          \<and> b = filter (\<lambda>idx. snd (ds ! nat idx) = L) (py_range (length ds))
          \<and> (\<forall>idx \<in> set b. 0 \<le> idx \<and> idx < int (length ds) \<and> snd (ds ! nat idx) = L)"
      if m: "(L, b) \<in> set d" for L b
    proof -
      have e: "b = filter (\<lambda>idx. snd (ds ! nat idx) = L) (py_range (length ds))"
        using entry[OF m] by (simp add: label_at_def)
      have "0 \<le> idx \<and> idx < int (length ds) \<and> snd (ds ! nat idx) = L" if "idx \<in> set b" for idx
      proof -
        from that e
        have "idx \<in> set (filter (\<lambda>idx. snd (ds ! nat idx) = L) (py_range (length ds)))"
          by simp
        then show ?thesis by (simp add: in_py_range)
      qed
      with nonempty[OF m] e show ?thesis by blast
    qed
    then show ?thesis by blast
  qed
  have single: "\<forall>(L, bucket) \<in> set d. int i \<in> set bucket \<longrightarrow> L = snd (ds ! i)" for i
  proof (clarify)
    fix L b assume m: "(L, b) \<in> set d" and "int i \<in> set b"
    with entry[OF m] show "L = snd (ds ! i)" by (auto simp: label_at_def)
  qed
  have per_index: "\<forall>i < length ds.
            (\<exists>bucket. dict_getitem d (snd (ds ! i)) = Inr bucket \<and> count_list bucket (int i) = 1)
          \<and> (\<forall>(L, bucket) \<in> set d. int i \<in> set bucket \<longrightarrow> L = snd (ds ! i))"
  proof (intro allI impI conjI)
    fix i assume "i < length ds"
    then show "\<exists>bucket. dict_getitem d (snd (ds ! i)) = Inr bucket \<and> count_list bucket (int i) = 1"
      by (rule own)
    show "\<forall>(L, bucket) \<in> set d. int i \<in> set bucket \<longrightarrow> L = snd (ds ! i)"
      by (rule single)
  qed
  have scan: "organize_by_label ds = organize_loop ds (py_range (length ds)) []"
    "length (py_range (length ds)) = length ds"
    by (simp_all add: organize_by_label_def py_range_def)
  have once: "\<forall>i < length ds. count_list (py_range (length ds)) (int i) = 1"
    by (simp add: count_list_distinct distinct_py_range in_py_range)
  have "\<exists>d. organize_by_label ds = Inr d
       \<and> distinct (dict_keys d)
       \<and> set (dict_keys d) = snd ` set ds
       \<and> (\<forall>(L, bucket) \<in> set d.
            bucket \<noteq> []
          \<and> bucket = filter (\<lambda>idx. snd (ds ! nat idx) = L) (py_range (length ds))
          \<and> (\<forall>idx \<in> set bucket. 0 \<le> idx \<and> idx < int (length ds) \<and> snd (ds ! nat idx) = L))
       \<and> (\<forall>i < length ds.
            (\<exists>bucket. dict_getitem d (snd (ds ! i)) = Inr bucket \<and> count_list bucket (int i) = 1)
          \<and> (\<forall>(L, bucket) \<in> set d. int i \<in> set bucket \<longrightarrow> L = snd (ds ! i)))"
    by (rule exI[of _ d]) (intro conjI d(1) keys buckets per_index)
  with scan once show ?thesis by blast
qed

theorem organize_by_label_index_witness:
  "\<exists>d bucket. organize_by_label [(''a'', 7::int), (''b'', 3), (''c'', 7)] = Inr d
       \<and> dict_getitem d 7 = Inr bucket \<and> count_list bucket 2 = 1"
proof -
  let ?ds = "[(''a'', 7::int), (''b'', 3), (''c'', 7)]"
  from organize_by_label_index [of ?ds] obtain d where
    d: "organize_by_label ?ds = Inr d"
       "\<forall>i < length ?ds.
            (\<exists>bucket. dict_getitem d (snd (?ds ! i)) = Inr bucket \<and> count_list bucket (int i) = 1)
          \<and> (\<forall>(L, bucket) \<in> set d. int i \<in> set bucket \<longrightarrow> L = snd (?ds ! i))"
    by blast
  have "(2::nat) < length ?ds" by simp
  with d(2) obtain bucket where
    "dict_getitem d (snd (?ds ! 2)) = Inr bucket" "count_list bucket (int 2) = 1"
    by blast
  then have "dict_getitem d 7 = Inr bucket \<and> count_list bucket 2 = 1" by simp
  with d(1) show ?thesis by blast
qed

section \<open>Properties of the pair sampler\<close>

lemma choice_nonempty:
  "seq \<noteq> [] \<Longrightarrow> \<exists>j < length seq. choice seq g = Inr (seq ! j, stl g)"
  by (rule exI[of _ "shd g mod length seq"]) (simp add: choice_def randbelow_def)

lemma choice_empty: "choice [] g = Inl IndexError"
  by (simp add: choice_def)

lemma sample_too_few: "int (length xs) < k \<Longrightarrow> sample xs k g = Inl ValueError"
  by (simp add: sample_def)

lemma sample_two:
  assumes "2 \<le> length xs"
  shows "\<exists>i j. i < length xs \<and> j < length xs \<and> i \<noteq> j
           \<and> sample xs 2 g = Inr ([xs ! i, xs ! j], stl (stl g))"
proof -
  let ?n = "length xs"
  let ?i = "shd g mod ?n"
  let ?k = "shd (stl g) mod (?n - 1)"
  let ?pool = "butlast (xs[?i := last xs])"
  let ?j = "if ?k = ?i then ?n - 1 else ?k"
  have pos: "0 < ?n" "0 < ?n - 1" using assms by arith+
  have i: "?i < ?n" using pos(1) by (rule mod_less_divisor)
  have k: "?k < ?n - 1" using pos(2) by (rule mod_less_divisor)
  have len: "length ?pool = ?n - 1" by simp
  have nonempty: "xs \<noteq> []" using pos(1) by (cases xs) simp_all
  have "?pool ! ?k = (xs[?i := last xs]) ! ?k"
    using k by (simp add: nth_butlast)
  also have "\<dots> = xs ! ?j"
    using i k nonempty by (simp add: nth_list_update last_conv_nth)
  finally have second: "?pool ! ?k = xs ! ?j" .
  have j: "?j < ?n" "?i \<noteq> ?j" using i k by auto
  have "sample_pool xs (Suc (Suc 0)) g = ([xs ! ?i, ?pool ! ?k], stl (stl g))"
    by (simp add: randbelow_def)
  then have "sample xs 2 g = Inr ([xs ! ?i, xs ! ?j], stl (stl g))"
    using assms second by (simp add: sample_def numeral_2_eq_2)
  with i j show ?thesis by blast
qed

lemma map_of_nth:
  assumes "distinct (map fst d)" "p < length d"
  shows "map_of d (dict_keys d ! p) = Some (snd (d ! p))"
proof -
  from assms(2) have "(fst (d ! p), snd (d ! p)) \<in> set d" by simp
  with assms(1) have "map_of d (fst (d ! p)) = Some (snd (d ! p))" by (rule map_of_is_SomeI)
  with assms(2) show ?thesis by (simp add: dict_keys_def)
qed

lemma dict_getitem_nth:
  "distinct (map fst d) \<Longrightarrow> p < length d \<Longrightarrow> dict_getitem d (dict_keys d ! p) = Inr (snd (d ! p))"
  by (simp add: dict_getitem_def map_of_nth)

lemma bucket_of_nth:
  "distinct (map fst d) \<Longrightarrow> p < length d \<Longrightarrow> bucket_of d (dict_keys d ! p) = snd (d ! p)"
  by (simp add: bucket_of_def map_of_nth)

lemma positive_pair_char:
  assumes "distinct (map fst d)" "d \<noteq> []"
  shows "\<exists>p < length d.
           choice (dict_keys d) g = Inr (dict_keys d ! p, stl g)
         \<and> (if 2 \<le> length (snd (d ! p))
            then \<exists>r. same_bucket_record d r
                   \<and> positive_pair d (dict_keys d) (acc, g) = Inr (acc @ [r], stl (stl (stl g)))
            else positive_pair d (dict_keys d) (acc, g) = Inr (acc, stl g))"
proof -
  from assms(2) have "dict_keys d \<noteq> []" by (simp add: dict_keys_def)
  from choice_nonempty[OF this, of g] obtain p where
    p: "p < length d" "choice (dict_keys d) g = Inr (dict_keys d ! p, stl g)"
    by (auto simp: dict_keys_def)
  let ?b = "snd (d ! p)"
  have get: "dict_getitem d (dict_keys d ! p) = Inr ?b"
    using assms(1) p(1) by (rule dict_getitem_nth)
  show ?thesis
  proof (cases "2 \<le> length ?b")
    case True
    from sample_two[OF True, of "stl g"] obtain i j where
      ij: "i < length ?b" "j < length ?b" "i \<noteq> j"
          "sample ?b 2 (stl g) = Inr ([?b ! i, ?b ! j], stl (stl (stl g)))"
      by blast
    have "same_bucket_record d (?b ! i, ?b ! j, 0)"
      unfolding same_bucket_record_def using p(1) ij(1,2,3) by blast
    moreover have "positive_pair d (dict_keys d) (acc, g)
                     = Inr (acc @ [(?b ! i, ?b ! j, 0)], stl (stl (stl g)))"
      using True p(2) get ij(4) by (simp add: positive_pair_def)
    ultimately show ?thesis using p True by auto
  next
    case False
    then have "positive_pair d (dict_keys d) (acc, g) = Inr (acc, stl g)"
      using p(2) get by (simp add: positive_pair_def)
    with p False show ?thesis by auto
  qed
qed

lemma negative_pair_char:
  assumes "distinct (map fst d)" "2 \<le> length d" "\<forall>(L, b) \<in> set d. b \<noteq> []"
  shows "\<exists>r. cross_bucket_record d r
           \<and> negative_pair d (dict_keys d) (acc, g) = Inr (acc @ [r], stl (stl (stl (stl g))))"
proof -
  let ?ks = "dict_keys d"
  have len: "length ?ks = length d" by (simp add: dict_keys_def)
  from assms(2) have "2 \<le> length ?ks" by (simp add: len)
  from sample_two[OF this, of g] obtain p q where
    pq: "p < length d" "q < length d" "p \<noteq> q"
        "sample ?ks 2 g = Inr ([?ks ! p, ?ks ! q], stl (stl g))"
    by (auto simp: len)
  let ?b1 = "snd (d ! p)" and ?b2 = "snd (d ! q)"
  have g1: "dict_getitem d (?ks ! p) = Inr ?b1" using assms(1) pq(1) by (rule dict_getitem_nth)
  have g2: "dict_getitem d (?ks ! q) = Inr ?b2" using assms(1) pq(2) by (rule dict_getitem_nth)
  have "d ! p \<in> set d" "d ! q \<in> set d" using pq(1,2) by simp_all
  with assms(3) have ne: "?b1 \<noteq> []" "?b2 \<noteq> []" by (auto simp: case_prod_beta)
  from choice_nonempty[OF ne(1), of "stl (stl g)"] obtain i where
    i: "i < length ?b1" "choice ?b1 (stl (stl g)) = Inr (?b1 ! i, stl (stl (stl g)))" by blast
  from choice_nonempty[OF ne(2), of "stl (stl (stl g))"] obtain j where
    j: "j < length ?b2" "choice ?b2 (stl (stl (stl g))) = Inr (?b2 ! j, stl (stl (stl (stl g))))"
    by blast
  have "cross_bucket_record d (?b1 ! i, ?b2 ! j, 1)"
    unfolding cross_bucket_record_def using pq(1,2,3) i(1) j(1) by blast
  moreover have "negative_pair d ?ks (acc, g) = Inr (acc @ [(?b1 ! i, ?b2 ! j, 1)], stl (stl (stl (stl g))))"
    using pq(4) g1 g2 i(2) j(2) by (simp add: negative_pair_def)
  ultimately show ?thesis by blast
qed

lemma pair_iteration_char:
  assumes "distinct (map fst d)" "2 \<le> length d" "\<forall>(L, b) \<in> set d. b \<noteq> []"
  shows "\<exists>chunk g'. pair_iteration d (dict_keys d) (acc, g) = Inr (acc @ chunk, g')
           \<and> iteration_chunk d g chunk"
proof -
  from assms(2) have ne: "d \<noteq> []" by auto
  from positive_pair_char[OF assms(1) ne, of g acc] obtain p where
    p: "p < length d" "choice (dict_keys d) g = Inr (dict_keys d ! p, stl g)"
       "if 2 \<le> length (snd (d ! p))
        then \<exists>r. same_bucket_record d r
               \<and> positive_pair d (dict_keys d) (acc, g) = Inr (acc @ [r], stl (stl (stl g)))
        else positive_pair d (dict_keys d) (acc, g) = Inr (acc, stl g)"
    by blast
  have get: "dict_getitem d (dict_keys d ! p) = Inr (snd (d ! p))"
    using assms(1) p(1) by (rule dict_getitem_nth)
  show ?thesis
  proof (cases "2 \<le> length (snd (d ! p))")
    case True
    with p(3) obtain r1 where
      r1: "same_bucket_record d r1"
          "positive_pair d (dict_keys d) (acc, g) = Inr (acc @ [r1], stl (stl (stl g)))"
      by auto
    from negative_pair_char[OF assms, of "acc @ [r1]" "stl (stl (stl g))"] obtain r2 g' where
      r2: "cross_bucket_record d r2"
          "negative_pair d (dict_keys d) (acc @ [r1], stl (stl (stl g))) = Inr ((acc @ [r1]) @ [r2], g')"
      by blast
    have "pair_iteration d (dict_keys d) (acc, g) = Inr (acc @ [r1, r2], g')"
      using r1(2) r2(2) by (simp add: pair_iteration_def)
    moreover have "iteration_chunk d g [r1, r2]"
      unfolding iteration_chunk_def using p(2) get True r1(1) r2(1) by auto
    ultimately show ?thesis by blast
  next
    case False
    with p(3) have pos: "positive_pair d (dict_keys d) (acc, g) = Inr (acc, stl g)" by simp
    from negative_pair_char[OF assms, of acc "stl g"] obtain r2 g' where
      r2: "cross_bucket_record d r2"
          "negative_pair d (dict_keys d) (acc, stl g) = Inr (acc @ [r2], g')"
      by blast
    have "pair_iteration d (dict_keys d) (acc, g) = Inr (acc @ [r2], g')"
      using pos r2(2) by (simp add: pair_iteration_def)
    moreover have "iteration_chunk d g [r2]"
      unfolding iteration_chunk_def using p(2) get False r2(1) by auto
    ultimately show ?thesis by blast
  qed
qed

lemma pairs_loop_char:
  assumes "distinct (map fst d)" "2 \<le> length d" "\<forall>(L, b) \<in> set d. b \<noteq> []"
  shows "\<exists>chunks gs. length chunks = n \<and> length gs = Suc n \<and> gs ! 0 = g
           \<and> pairs_loop n d (dict_keys d) (acc, g) = Inr (acc @ concat chunks, gs ! n)
           \<and> (\<forall>k < n. pair_iteration d (dict_keys d) (acc @ concat (take k chunks), gs ! k)
                          = Inr (acc @ concat (take (Suc k) chunks), gs ! Suc k)
                      \<and> iteration_chunk d (gs ! k) (chunks ! k))"
proof (induction n arbitrary: acc g)
  case 0
  show ?case by (rule exI[of _ "[]"], rule exI[of _ "[g]"]) simp
next
  case (Suc n)
  from pair_iteration_char[OF assms, of acc g] obtain chunk g1 where
    it: "pair_iteration d (dict_keys d) (acc, g) = Inr (acc @ chunk, g1)"
        "iteration_chunk d g chunk"
    by blast
  from Suc.IH[where acc = "acc @ chunk" and g = g1] obtain chunks gs where
    ih: "length chunks = n" "length gs = Suc n" "gs ! 0 = g1"
        "pairs_loop n d (dict_keys d) (acc @ chunk, g1) = Inr ((acc @ chunk) @ concat chunks, gs ! n)"
        "\<forall>k < n. pair_iteration d (dict_keys d) ((acc @ chunk) @ concat (take k chunks), gs ! k)
                          = Inr ((acc @ chunk) @ concat (take (Suc k) chunks), gs ! Suc k)
                      \<and> iteration_chunk d (gs ! k) (chunks ! k)"
    by blast
  let ?chunks = "chunk # chunks" and ?gs = "g # gs"
  have "length ?chunks = Suc n" "length ?gs = Suc (Suc n)" "?gs ! 0 = g"
    using ih(1,2) by simp_all
  moreover have "pairs_loop (Suc n) d (dict_keys d) (acc, g) = Inr (acc @ concat ?chunks, ?gs ! Suc n)"
    using it(1) ih(4) by simp
  moreover have "pair_iteration d (dict_keys d) (acc @ concat (take k ?chunks), ?gs ! k)
                          = Inr (acc @ concat (take (Suc k) ?chunks), ?gs ! Suc k)
                      \<and> iteration_chunk d (?gs ! k) (?chunks ! k)" if "k < Suc n" for k
  proof (cases k)
    case 0
    with it ih(3) show ?thesis by simp
  next
    case (Suc k')
    with that have "k' < n" by simp
    with ih(5) Suc show ?thesis by simp
  qed
  ultimately show ?case by blast
qed

lemma pair_iteration_no_labels:
  assumes "d = []"
  shows "positive_pair d (dict_keys d) st = Inl IndexError"
    and "pair_iteration d (dict_keys d) st = Inl IndexError"
  using assms
  by (cases st; simp add: pair_iteration_def positive_pair_def dict_keys_def choice_empty)+

lemma pair_iteration_one_label:
  assumes "length d = 1"
  shows "\<exists>st'. positive_pair d (dict_keys d) st = Inr st'
              \<and> negative_pair d (dict_keys d) st' = Inl ValueError"
    and "pair_iteration d (dict_keys d) st = Inl ValueError"
proof -
  obtain acc g where st: "st = (acc, g)" by (cases st)
  from assms have dist: "distinct (map fst d)" and ne: "d \<noteq> []"
    by (cases d; simp)+
  from positive_pair_char[OF dist ne, of g acc] obtain st' where
    pos: "positive_pair d (dict_keys d) st = Inr st'"
    unfolding st by (auto split: if_splits)
  obtain acc' g' where st': "st' = (acc', g')" by (cases st')
  have "sample (dict_keys d) 2 g' = Inl ValueError"
    using assms by (intro sample_too_few) (simp add: dict_keys_def)
  then have neg: "negative_pair d (dict_keys d) st' = Inl ValueError"
    by (simp add: negative_pair_def st')
  from pos neg show "\<exists>st'. positive_pair d (dict_keys d) st = Inr st'
              \<and> negative_pair d (dict_keys d) st' = Inl ValueError" by blast
  from pos neg show "pair_iteration d (dict_keys d) st = Inl ValueError"
    by (simp add: pair_iteration_def)
qed

text \<open>
  Claim C10. With a requested count of at least one, \<^verbatim>\<open>create_pairs\<close> raises when
  the label dictionary has fewer than two labels. Without any label the draw of the
  positive pair fails, \<^verbatim>\<open>random.choice\<close> raising \<^verbatim>\<open>IndexError\<close> on the empty label
  list. With exactly one label the positive step goes through and the draw of the
  negative pair fails, \<^verbatim>\<open>random.sample\<close> raising \<^verbatim>\<open>ValueError\<close> for two labels out of
  one. In both cases the call yields the exception and no list of pairs.
\<close>

theorem create_pairs_few_labels:
  assumes "1 \<le> N"
  shows "(length (dict_keys d) = 0 \<longrightarrow>
            positive_pair d (dict_keys d) ([], g) = Inl IndexError
          \<and> create_pairs ds d N g = Inl IndexError)
       \<and> (length (dict_keys d) = 1 \<longrightarrow>
            (\<exists>st. positive_pair d (dict_keys d) ([], g) = Inr st
                 \<and> negative_pair d (dict_keys d) st = Inl ValueError)
          \<and> create_pairs ds d N g = Inl ValueError)"
proof -
  from assms obtain n where n: "nat N = Suc n" by (cases "nat N") auto
  have zero: "positive_pair d (dict_keys d) ([], g) = Inl IndexError
          \<and> create_pairs ds d N g = Inl IndexError" if "length (dict_keys d) = 0"
  proof -
    from that have "d = []" by (simp add: dict_keys_def)
    from pair_iteration_no_labels[OF this, of "([], g)"] show ?thesis
      by (simp add: create_pairs_def n)
  qed
  have one: "(\<exists>st. positive_pair d (dict_keys d) ([], g) = Inr st
                 \<and> negative_pair d (dict_keys d) st = Inl ValueError)
          \<and> create_pairs ds d N g = Inl ValueError" if "length (dict_keys d) = 1"
  proof -
    from that have "length d = 1" by (simp add: dict_keys_def)
    from pair_iteration_one_label[OF this, of "([], g)"] show ?thesis
      by (simp add: create_pairs_def n)
  qed
  from zero one show ?thesis by blast
qed

theorem create_pairs_few_labels_witness:
  "create_pairs [(''a'', 5::int), (''b'', 5)] [(5::int, [0, 1])] 3 (sconst 0) = Inl ValueError
   \<and> create_pairs ([] :: (string \<times> int) list) [] 3 (sconst 0) = Inl IndexError"
  using create_pairs_few_labels [of 3 "[(5::int, [0, 1])]" "sconst 0" "[(''a'', 5::int), (''b'', 5)]"]
        create_pairs_few_labels [of 3 "[] :: int label_dict" "sconst 0" "[] :: (string \<times> int) list"]
  by (simp add: dict_keys_def)

lemma organize_by_label_facts:
  assumes "organize_by_label ds = Inr d"
  shows "distinct (map fst d)"
    and "(L, b) \<in> set d \<Longrightarrow> b \<noteq> []"
    and "(L, b) \<in> set d \<Longrightarrow> distinct b"
    and "(L, b) \<in> set d \<Longrightarrow> idx \<in> set b \<Longrightarrow>
           0 \<le> idx \<and> idx < int (length ds) \<and> label_at ds idx = L"
proof -
  from organize_by_label_char[of ds] assms have d: "distinct (map fst d)"
      "fst ` set d = snd ` set ds"
      "\<forall>L. bucket_of d L = filter (\<lambda>i. label_at ds i = L) (py_range (length ds))"
    by auto
  show "distinct (map fst d)" by (rule d(1))
  have entry: "b = filter (\<lambda>i. label_at ds i = L) (py_range (length ds))"
    if "(L, b) \<in> set d" for L b
    using that d(1,3) bucket_of_entry by metis
  show "distinct b" if "(L, b) \<in> set d"
    using entry[OF that] by (simp add: distinct_py_range)
  show "0 \<le> idx \<and> idx < int (length ds) \<and> label_at ds idx = L"
    if "(L, b) \<in> set d" "idx \<in> set b"
  proof -
    from that(2) entry[OF that(1)]
    have "idx \<in> set (filter (\<lambda>i. label_at ds i = L) (py_range (length ds)))" by simp
    then show ?thesis by (simp add: in_py_range)
  qed
  show "b \<noteq> []" if m: "(L, b) \<in> set d"
  proof -
    from m d(2) have "L \<in> snd ` set ds" by force
    then obtain i where i: "i < length ds" "snd (ds ! i) = L"
      by (auto simp: in_set_conv_nth)
    then have "int i \<in> set (filter (\<lambda>i. label_at ds i = L) (py_range (length ds)))"
      by (simp add: in_py_range label_at_def)
    then have "int i \<in> set b" using entry[OF m] by simp
    then show ?thesis by auto
  qed
qed

lemma same_bucket_record_members:
  assumes "same_bucket_record d (idx1, idx2, s)" "\<forall>(L, b) \<in> set d. distinct b"
  shows "s = 0 \<and> idx1 \<noteq> idx2
       \<and> (\<exists>L b. (L, b) \<in> set d \<and> idx1 \<in> set b \<and> idx2 \<in> set b)"
proof -
  from assms(1) obtain p i j where
    r: "p < length d" "i < length (snd (d ! p))" "j < length (snd (d ! p))" "i \<noteq> j"
       "idx1 = snd (d ! p) ! i" "idx2 = snd (d ! p) ! j" "s = 0"
    unfolding same_bucket_record_def by auto
  let ?b = "snd (d ! p)"
  from r(1) have m: "(fst (d ! p), ?b) \<in> set d" by simp
  with assms(2) have "distinct ?b" by blast
  with r(2,3,4) have "?b ! i \<noteq> ?b ! j" by (simp add: nth_eq_iff_index_eq)
  moreover have "?b ! i \<in> set ?b" "?b ! j \<in> set ?b" using r(2,3) by simp_all
  ultimately show ?thesis using r(5,6,7) m by blast
qed

lemma cross_bucket_record_members:
  assumes "cross_bucket_record d (idx1, idx2, s)" "distinct (map fst d)"
  shows "s = 1
       \<and> (\<exists>L1 b1 L2 b2. (L1, b1) \<in> set d \<and> (L2, b2) \<in> set d \<and> L1 \<noteq> L2
             \<and> idx1 \<in> set b1 \<and> idx2 \<in> set b2)"
proof -
  from assms(1) obtain p q i j where
    r: "p < length d" "q < length d" "p \<noteq> q"
       "i < length (snd (d ! p))" "j < length (snd (d ! q))"
       "idx1 = snd (d ! p) ! i" "idx2 = snd (d ! q) ! j" "s = 1"
    unfolding cross_bucket_record_def by auto
  have ne: "fst (d ! p) \<noteq> fst (d ! q)"
    using assms(2) r(1,2,3) unfolding distinct_conv_nth by (metis length_map nth_map)
  have m: "(fst (d ! p), snd (d ! p)) \<in> set d" "(fst (d ! q), snd (d ! q)) \<in> set d"
    using r(1,2) by simp_all
  have "idx1 \<in> set (snd (d ! p))" "idx2 \<in> set (snd (d ! q))" using r(4,5,6,7) by simp_all
  with ne m r(8) show ?thesis by blast
qed

lemma iteration_chunk_records:
  assumes "iteration_chunk d g chunk" "r \<in> set chunk"
  shows "same_bucket_record d r \<or> cross_bucket_record d r"
  using assms unfolding iteration_chunk_def by (auto split: if_splits)

lemma pairs_loop_few_labels:
  assumes "length d < 2"
  shows "\<exists>e. pairs_loop (Suc n) d (dict_keys d) st = Inl e"
proof -
  from assms consider "d = []" | "length d = 1" by (cases d) auto
  then show ?thesis
  proof cases
    case 1
    from pair_iteration_no_labels(2)[OF this, of st] show ?thesis by simp
  next
    case 2
    from pair_iteration_one_label(2)[OF this, of st] show ?thesis by simp
  qed
qed

text \<open>
  Claim C2. Let the label dictionary be the one \<^verbatim>\<open>organize_by_label\<close> builds from a
  base dataset, and let \<open>(idx1, idx2, s)\<close> be a record of the list \<^verbatim>\<open>create_pairs\<close>
  returns. Then both indices can be read in the base dataset and \<open>s\<close> is 0 or 1. For
  \<open>s = 0\<close> the indices are distinct, lie in one bucket and carry equal labels in the
  base dataset; for \<open>s = 1\<close> they lie in the buckets of two different labels and
  carry different labels in the base dataset.
\<close>

theorem create_pairs_label_consistency:
  assumes "organize_by_label ds = Inr d"
      and "create_pairs ds d N g = Inr (ps, g')"
      and "(idx1, idx2, s) \<in> set ps"
  shows "\<exists>img1 label1 img2 label2.
           py_getitem ds idx1 = Inr (img1, label1) \<and> py_getitem ds idx2 = Inr (img2, label2)
         \<and> (s = 0 \<or> s = 1)
         \<and> (s = 0 \<longrightarrow> idx1 \<noteq> idx2 \<and> label1 = label2
                \<and> (\<exists>L bucket. (L, bucket) \<in> set d \<and> idx1 \<in> set bucket \<and> idx2 \<in> set bucket))
         \<and> (s = 1 \<longrightarrow> label1 \<noteq> label2
                \<and> (\<exists>L1 bucket1 L2 bucket2. (L1, bucket1) \<in> set d \<and> (L2, bucket2) \<in> set d
                      \<and> L1 \<noteq> L2 \<and> idx1 \<in> set bucket1 \<and> idx2 \<in> set bucket2))"
proof -
  note facts = organize_by_label_facts[OF assms(1)]
  have loop: "pairs_loop (nat N) d (dict_keys d) ([], g) = Inr (ps, g')"
    using assms(2) by (simp add: create_pairs_def)
  from assms(3) have "ps \<noteq> []" by auto
  with loop obtain n where n: "nat N = Suc n" by (cases "nat N") auto
  have two: "2 \<le> length d"
  proof (rule ccontr)
    assume "\<not> 2 \<le> length d"
    then have "length d < 2" by simp
    from pairs_loop_few_labels[OF this, of n "([], g)"] loop n show False by auto
  qed
  have nonempty: "\<forall>(L, b) \<in> set d. b \<noteq> []" using facts(2) by blast
  have dist: "\<forall>(L, b) \<in> set d. distinct b" using facts(3) by blast
  from pairs_loop_char[OF facts(1) two nonempty, of "nat N" g "[]"] loop obtain chunks gs where
    c: "length chunks = nat N" "ps = concat chunks"
       "\<forall>k < nat N. iteration_chunk d (gs ! k) (chunks ! k)"
    by auto
  from assms(3) c(2) obtain chunk where "chunk \<in> set chunks" "(idx1, idx2, s) \<in> set chunk"
    by auto
  then obtain k where "k < nat N" "(idx1, idx2, s) \<in> set (chunks ! k)"
    using c(1) by (auto simp: in_set_conv_nth)
  with c(3) have kind: "same_bucket_record d (idx1, idx2, s) \<or> cross_bucket_record d (idx1, idx2, s)"
    using iteration_chunk_records by blast
  have get: "\<exists>img. py_getitem ds idx = Inr (img, L)"
    if "(L, b) \<in> set d" "idx \<in> set b" for L b idx
  proof -
    from facts(4)[OF that] have "py_getitem ds idx = Inr (ds ! nat idx)" "snd (ds ! nat idx) = L"
      by (simp_all add: py_getitem_in_range label_at_def)
    then have "py_getitem ds idx = Inr (fst (ds ! nat idx), L)" by (metis prod.collapse)
    then show ?thesis by blast
  qed
  from kind show ?thesis
  proof
    assume "same_bucket_record d (idx1, idx2, s)"
    from same_bucket_record_members[OF this dist] obtain L b where
      m: "s = 0" "idx1 \<noteq> idx2" "(L, b) \<in> set d" "idx1 \<in> set b" "idx2 \<in> set b" by blast
    from get[OF m(3,4)] get[OF m(3,5)] obtain img1 img2 where
      "py_getitem ds idx1 = Inr (img1, L)" "py_getitem ds idx2 = Inr (img2, L)" by blast
    with m show ?thesis
      by (intro exI[of _ img1], intro exI[of _ L], intro exI[of _ img2], intro exI[of _ L]) auto
  next
    assume "cross_bucket_record d (idx1, idx2, s)"
    from cross_bucket_record_members[OF this facts(1)] obtain L1 b1 L2 b2 where
      m: "s = 1" "(L1, b1) \<in> set d" "(L2, b2) \<in> set d" "L1 \<noteq> L2"
         "idx1 \<in> set b1" "idx2 \<in> set b2" by blast
    from get[OF m(2,5)] get[OF m(3,6)] obtain img1 img2 where
      "py_getitem ds idx1 = Inr (img1, L1)" "py_getitem ds idx2 = Inr (img2, L2)" by blast
    with m show ?thesis
      by (intro exI[of _ img1], intro exI[of _ L1], intro exI[of _ img2], intro exI[of _ L2]) auto
  qed
qed

theorem create_pairs_label_consistency_witness:
  "organize_by_label [(''a'', 0::int), (''b'', 0), (''c'', 1), (''d'', 1)]
     = Inr [(0, [0, 1]), (1, [2, 3])]
   \<and> create_pairs [(''a'', 0::int), (''b'', 0), (''c'', 1), (''d'', 1)]
        [(0, [0, 1]), (1, [2, 3])] 1 (sconst 0) = Inr ([(0, 1, 0), (0, 2, 1)], sconst 0)
   \<and> (\<exists>img1 label1 img2 label2.
         py_getitem [(''a'', 0::int), (''b'', 0), (''c'', 1), (''d'', 1)] 0 = Inr (img1, label1)
       \<and> py_getitem [(''a'', 0::int), (''b'', 0), (''c'', 1), (''d'', 1)] 2 = Inr (img2, label2)
       \<and> label1 \<noteq> label2)"
proof -
  let ?ds = "[(''a'', 0::int), (''b'', 0), (''c'', 1), (''d'', 1)]"
  let ?d = "[(0::int, [0::int, 1]), (1, [2, 3])]"
  have h1: "organize_by_label ?ds = Inr ?d"
    by (simp add: organize_by_label_def py_range_def organize_step_def py_getitem_def
        dict_contains_def dict_getitem_def upt_conv_Cons)
  have h2: "create_pairs ?ds ?d 1 (sconst 0) = Inr ([(0, 1, 0), (0, 2, 1)], sconst 0)"
    by (simp add: create_pairs_def dict_keys_def pair_iteration_def positive_pair_def
        negative_pair_def choice_def randbelow_def dict_getitem_def sample_def numeral_2_eq_2)
  have h3: "(0, 2, 1) \<in> set [(0::int, 1::int, 0::int), (0, 2, 1)]" by simp
  from create_pairs_label_consistency [OF h1 h2 h3] h1 h2 show ?thesis by auto
qed

lemma filter_concat_count:
  assumes "\<forall>c \<in> set chunks. length (filter P c) = 1"
  shows "length (filter P (concat chunks)) = length chunks"
  using assms by (induction chunks) auto

lemma filter_concat_bound:
  assumes "\<forall>c \<in> set chunks. length (filter P c) \<le> 1"
  shows "length (filter P (concat chunks)) \<le> length chunks"
  using assms by (induction chunks) auto

lemma iteration_chunk_shape:
  assumes "iteration_chunk d g chunk"
  shows "\<exists>L g1 bucket. choice (dict_keys d) g = Inr (L, g1) \<and> dict_getitem d L = Inr bucket
           \<and> (if 2 \<le> length bucket
               then \<exists>a b c e. chunk = [(a, b, 0), (c, e, 1)]
               else \<exists>c e. chunk = [(c, e, 1)])"
proof -
  from assms obtain L g1 bucket where
    h: "choice (dict_keys d) g = Inr (L, g1)" "dict_getitem d L = Inr bucket"
       "if 2 \<le> length bucket
        then \<exists>r1 r2. chunk = [r1, r2] \<and> same_bucket_record d r1 \<and> cross_bucket_record d r2
        else \<exists>r2. chunk = [r2] \<and> cross_bucket_record d r2"
    unfolding iteration_chunk_def by blast
  have "if 2 \<le> length bucket
               then \<exists>a b c e. chunk = [(a, b, 0), (c, e, 1)]
               else \<exists>c e. chunk = [(c, e, 1)]"
    using h(3) unfolding same_bucket_record_def cross_bucket_record_def
    by (auto split: if_splits)
  with h(1,2) show ?thesis by blast
qed

lemma iteration_chunk_counts:
  assumes "iteration_chunk d g chunk"
  shows "length (filter (\<lambda>(a, b, s). s = 1) chunk) = 1"
    and "length (filter (\<lambda>(a, b, s). s = 0) chunk) \<le> 1"
  using iteration_chunk_shape[OF assms] by (auto split: if_splits)

text \<open>
  Claim C3, amended. For a label dictionary with at least two labels and no empty
  bucket, \<^verbatim>\<open>create_pairs\<close> returns. The list returned is the concatenation, in order,
  of one chunk per iteration; \<open>gs ! k\<close> is the generator state in which iteration \<open>k\<close>
  starts, and the iteration takes the list from the first \<open>k\<close> chunks to the first
  \<open>k + 1\<close> chunks. The chunk of an iteration is a record with similarity 0 followed by
  a record with similarity 1 when the label chosen by the first draw of the iteration
  has two members or more, and a single record with similarity 1 otherwise. Hence
  there are exactly \<open>N\<close> records with similarity 1 and at most \<open>N\<close> with similarity 0.
\<close>

theorem create_pairs_generation_order:
  assumes "distinct (dict_keys d)" and "2 \<le> length (dict_keys d)"
      and "\<forall>(L, bucket) \<in> set d. bucket \<noteq> []"
  shows "\<exists>ps g' chunks gs.
           create_pairs ds d N g = Inr (ps, g')
         \<and> ps = concat chunks \<and> length chunks = nat N
         \<and> length gs = Suc (nat N) \<and> gs ! 0 = g \<and> gs ! nat N = g'
         \<and> (\<forall>k < nat N.
              pair_iteration d (dict_keys d) (concat (take k chunks), gs ! k)
                = Inr (concat (take (Suc k) chunks), gs ! Suc k)
            \<and> (\<exists>L g1 bucket.
                  choice (dict_keys d) (gs ! k) = Inr (L, g1) \<and> dict_getitem d L = Inr bucket
                \<and> (if 2 \<le> length bucket
                    then \<exists>a b c e. chunks ! k = [(a, b, 0), (c, e, 1)]
                    else \<exists>c e. chunks ! k = [(c, e, 1)])))
         \<and> length (filter (\<lambda>(a, b, s). s = 1) ps) = nat N
         \<and> length (filter (\<lambda>(a, b, s). s = 0) ps) \<le> nat N"
proof -
  from assms have inv: "distinct (map fst d)" "2 \<le> length d" "\<forall>(L, b) \<in> set d. b \<noteq> []"
    by (simp_all add: dict_keys_def)
  from pairs_loop_char[OF inv, of "nat N" g "[]"] obtain chunks gs where
    c: "length chunks = nat N" "length gs = Suc (nat N)" "gs ! 0 = g"
       "pairs_loop (nat N) d (dict_keys d) ([], g) = Inr (concat chunks, gs ! nat N)"
       "\<forall>k < nat N. pair_iteration d (dict_keys d) (concat (take k chunks), gs ! k)
                          = Inr (concat (take (Suc k) chunks), gs ! Suc k)
                      \<and> iteration_chunk d (gs ! k) (chunks ! k)"
    by auto
  have each: "\<forall>c \<in> set chunks. \<exists>g. iteration_chunk d g c"
    using c(1,5) by (metis in_set_conv_nth)
  have neg: "length (filter (\<lambda>(a, b, s). s = 1) (concat chunks)) = nat N"
    using filter_concat_count[of chunks "\<lambda>(a, b, s). s = 1"] each iteration_chunk_counts(1) c(1)
    by metis
  have pos: "length (filter (\<lambda>(a, b, s). s = 0) (concat chunks)) \<le> nat N"
    using filter_concat_bound[of chunks "\<lambda>(a, b, s). s = 0"] each iteration_chunk_counts(2) c(1)
    by metis
  have steps: "\<forall>k < nat N.
              pair_iteration d (dict_keys d) (concat (take k chunks), gs ! k)
                = Inr (concat (take (Suc k) chunks), gs ! Suc k)
            \<and> (\<exists>L g1 bucket.
                  choice (dict_keys d) (gs ! k) = Inr (L, g1) \<and> dict_getitem d L = Inr bucket
                \<and> (if 2 \<le> length bucket
                    then \<exists>a b c e. chunks ! k = [(a, b, 0), (c, e, 1)]
                    else \<exists>c e. chunks ! k = [(c, e, 1)]))"
    using c(5) iteration_chunk_shape by blast
  have run: "create_pairs ds d N g = Inr (concat chunks, gs ! nat N)"
    using c(4) by (simp add: create_pairs_def)
  show ?thesis
    by (rule exI[of _ "concat chunks"], rule exI[of _ "gs ! nat N"],
        rule exI[of _ chunks], rule exI[of _ gs])
       (intro conjI run refl c(1) c(2) c(3) steps neg pos)
qed

theorem create_pairs_generation_order_witness:
  "\<exists>ps g'. create_pairs [(''a'', 0::int), (''b'', 0), (''c'', 1), (''d'', 1)]
        [(0::int, [0, 1]), (1, [2, 3])] 2 (sconst 0) = Inr (ps, g')
      \<and> length (filter (\<lambda>(a, b, s). s = 1) ps) = 2
      \<and> length (filter (\<lambda>(a, b, s). s = 0) ps) \<le> 2"
  using create_pairs_generation_order
          [of "[(0::int, [0, 1]), (1, [2, 3])]" "[(''a'', 0::int), (''b'', 0), (''c'', 1), (''d'', 1)]" 2 "sconst 0"]
  by (auto simp: dict_keys_def)

text \<open>
  As the claim is worded, for every label dictionary with at least two labels, it
  fails: with an empty bucket the draw of the negative pair raises \<^verbatim>\<open>IndexError\<close>.
\<close>

theorem create_pairs_generation_order_counterexample:
  "create_pairs [(''a'', 0::int), (''b'', 1)] [(0::int, []), (1, [1])] 1 (sconst 0) = Inl IndexError"
  by (simp add: create_pairs_def dict_keys_def pair_iteration_def positive_pair_def negative_pair_def
      choice_def randbelow_def dict_getitem_def sample_def numeral_2_eq_2)

section \<open>Properties of the paired dataset view\<close>

text \<open>
  The conversion of the label. An integer of at most \<open>p\<close> significant bits is its own
  rounding to \<open>p\<close> bits, so a label below \<open>2\<^sup>2\<^sup>4\<close> in magnitude reaches the float32
  unchanged; the first integer above that bound does not.
\<close>

declare bit_length.simps [simp del]

lemma bit_length_bound: "n < 2 ^ k \<Longrightarrow> bit_length n \<le> k"
proof (induction k arbitrary: n)
  case 0
  then show ?case by (simp add: bit_length.simps)
next
  case (Suc k)
  show ?case
  proof (cases "n = 0")
    case True
    then show ?thesis by (simp add: bit_length.simps)
  next
    case False
    from Suc.prems have "n div 2 < 2 ^ k" by simp
    from Suc.IH[OF this] False show ?thesis by (subst bit_length.simps) simp
  qed
qed

lemma round_to_bits_exact: "\<bar>n\<bar> < 2 ^ p \<Longrightarrow> round_to_bits p n = n"
proof -
  assume "\<bar>n\<bar> < 2 ^ p"
  then have "nat \<bar>n\<bar> < 2 ^ p" by (simp add: nat_less_iff)
  from bit_length_bound[OF this] show ?thesis by (simp add: round_to_bits_def)
qed

lemma tensor_float32_exact:
  assumes "\<bar>label\<bar> < 2 ^ 24"
  shows "tensor_float32 label = Inr (Fin (real_of_int label))"
proof -
  have up: "(2::int) ^ 24 \<le> 2 ^ k" if "24 \<le> k" for k
    using that by (intro power_increasing) simp_all
  have small: "\<bar>label\<bar> < 2 ^ 53" "\<bar>label\<bar> < 2 ^ 1024" "\<bar>label\<bar> < 2 ^ 128"
    using assms up[of 53] up[of 1024] up[of 128] by (simp_all only: order.strict_trans2 numeral_le_iff semiring_norm)
  have r53: "round_to_bits 53 label = label" using small(1) by (rule round_to_bits_exact)
  have r24: "round_to_bits 24 label = label" using assms by (rule round_to_bits_exact)
  have "\<not> (2::int) ^ 1024 \<le> \<bar>label\<bar>" using small(2) by (simp only: not_le)
  then have d: "int_to_double label = Inr label"
    by (simp only: int_to_double_def Let_def r53 if_False)
  have "\<not> (2::int) ^ 128 \<le> label" "\<not> label \<le> - ((2::int) ^ 128)"
    using small(3) by (simp_all only: not_le abs_less_iff minus_less_iff)
  then have "double_to_float32 label = Fin (real_of_int label)"
    by (simp only: double_to_float32_def Let_def r24 if_False)
  with d show ?thesis by (simp only: tensor_float32_def sum.case)
qed

lemma bit_length_eq: "2 ^ k \<le> n \<Longrightarrow> n < 2 ^ Suc k \<Longrightarrow> bit_length n = Suc k"
proof (induction k arbitrary: n)
  case 0
  then have "n = 1" by simp
  then show ?case by (simp add: bit_length.simps[of "Suc 0"] bit_length.simps[of 0])
next
  case (Suc k)
  from Suc.prems have "2 ^ k \<le> n div 2" "n div 2 < 2 ^ Suc k" "n \<noteq> 0" by auto
  with Suc.IH[of "n div 2"] show ?case by (subst bit_length.simps) simp
qed

lemma tensor_float32_rounds: "tensor_float32 16777217 = Inr (Fin 16777216)"
proof -
  have b53: "bit_length 16777217 = 25"
    using bit_length_eq[of 24 16777217] by simp
  have "round_to_bits 53 16777217 = 16777217" "round_to_bits 24 16777217 = 16777216"
    by (simp_all add: round_to_bits_def b53 round_half_even_def Let_def)
  then show ?thesis
    by (simp add: tensor_float32_def int_to_double_def double_to_float32_def Let_def)
qed

lemma getitem_view_in_range:
  assumes "0 \<le> i" "i < int (length ps)" "ps ! nat i = (idx1, idx2, label)"
  shows "getitem_view (init_view ds ps) i =
           (case py_getitem ds idx1 of
              Inl e \<Rightarrow> Inl e
            | Inr (img1, l1) \<Rightarrow>
               (case py_getitem ds idx2 of
                  Inl e \<Rightarrow> Inl e
                | Inr (img2, l2) \<Rightarrow>
                   (case tensor_float32 label of
                      Inl e \<Rightarrow> Inl e
                    | Inr t \<Rightarrow> Inr ((img1, img2), t))))"
  using assms
  by (simp add: getitem_view_def init_view_def py_getitem_in_range
      cong: sum.case_cong prod.case_cong)

text \<open>
  Claim C9. The length of the view is the number of pair records. For an index \<open>i\<close>
  with \<open>0 \<le> i < len\<close>, whose pair record is \<open>(idx1, idx2, label)\<close>, reading the view
  looks \<open>idx1\<close> and then \<open>idx2\<close> up in the base dataset and returns the two images
  with the label converted to a float32; a failing lookup is passed on, and so is
  the \<^verbatim>\<open>OverflowError\<close> of a label beyond the range of a Python float. When both
  indices are valid and the label is below \<open>2\<^sup>2\<^sup>4\<close> in magnitude, as the similarity
  labels 0 and 1 are, the result is the pair of the images stored there with the
  float that equals the label. Two reads that resolve the same base index yield the
  same image, whichever side it is on.
\<close>

theorem paired_view_read:
  "len_view (init_view ds ps) = int (length ps)
   \<and> (\<forall>i idx1 idx2 label.
         0 \<le> i \<and> i < len_view (init_view ds ps) \<and> ps ! nat i = (idx1, idx2, label) \<longrightarrow>
           getitem_view (init_view ds ps) i =
             (case py_getitem ds idx1 of
                Inl e \<Rightarrow> Inl e
              | Inr (img1, l1) \<Rightarrow>
                 (case py_getitem ds idx2 of
                    Inl e \<Rightarrow> Inl e
                  | Inr (img2, l2) \<Rightarrow>
                     (case tensor_float32 label of
                        Inl e \<Rightarrow> Inl e
                      | Inr t \<Rightarrow> Inr ((img1, img2), t))))
         \<and> (0 \<le> idx1 \<and> idx1 < int (length ds) \<and> 0 \<le> idx2 \<and> idx2 < int (length ds)
              \<and> \<bar>label\<bar> < 2 ^ 24 \<longrightarrow>
               getitem_view (init_view ds ps) i =
                 Inr ((fst (ds ! nat idx1), fst (ds ! nat idx2)), Fin (real_of_int label))))
   \<and> (\<forall>i j a1 b1 l1 a2 b2 l2.
         0 \<le> i \<and> i < len_view (init_view ds ps) \<and> 0 \<le> j \<and> j < len_view (init_view ds ps)
         \<and> getitem_view (init_view ds ps) i = Inr ((a1, b1), l1)
         \<and> getitem_view (init_view ds ps) j = Inr ((a2, b2), l2) \<longrightarrow>
           (fst (ps ! nat i) = fst (ps ! nat j) \<longrightarrow> a1 = a2)
         \<and> (fst (snd (ps ! nat i)) = fst (snd (ps ! nat j)) \<longrightarrow> b1 = b2)
         \<and> (fst (ps ! nat i) = fst (snd (ps ! nat j)) \<longrightarrow> a1 = b2))"
proof (intro conjI allI impI)
  show len: "len_view (init_view ds ps) = int (length ps)"
    by (simp add: len_view_def init_view_def)
  {
    fix i idx1 idx2 label
    assume h: "0 \<le> i \<and> i < len_view (init_view ds ps) \<and> ps ! nat i = (idx1, idx2, label)"
    then have r: "0 \<le> i" "i < int (length ps)" "ps ! nat i = (idx1, idx2, label)"
      by (simp_all add: len)
    show g: "getitem_view (init_view ds ps) i =
             (case py_getitem ds idx1 of
                Inl e \<Rightarrow> Inl e
              | Inr (img1, l1) \<Rightarrow>
                 (case py_getitem ds idx2 of
                    Inl e \<Rightarrow> Inl e
                  | Inr (img2, l2) \<Rightarrow>
                     (case tensor_float32 label of
                        Inl e \<Rightarrow> Inl e
                      | Inr t \<Rightarrow> Inr ((img1, img2), t))))"
      by (rule getitem_view_in_range[OF r])
    assume v: "0 \<le> idx1 \<and> idx1 < int (length ds) \<and> 0 \<le> idx2 \<and> idx2 < int (length ds)
              \<and> \<bar>label\<bar> < 2 ^ 24"
    then have "tensor_float32 label = Inr (Fin (real_of_int label))"
      by (intro tensor_float32_exact) simp
    with v show "getitem_view (init_view ds ps) i =
                 Inr ((fst (ds ! nat idx1), fst (ds ! nat idx2)), Fin (real_of_int label))"
      unfolding g by (simp add: py_getitem_in_range case_prod_beta)
  }
  {
    fix i j a1 b1 l1 a2 b2 l2
    assume h: "0 \<le> i \<and> i < len_view (init_view ds ps) \<and> 0 \<le> j \<and> j < len_view (init_view ds ps)
         \<and> getitem_view (init_view ds ps) i = Inr ((a1, b1), l1)
         \<and> getitem_view (init_view ds ps) j = Inr ((a2, b2), l2)"
    obtain p1 p2 s where pi: "ps ! nat i = (p1, p2, s)" by (cases "ps ! nat i")
    obtain q1 q2 t where pj: "ps ! nat j = (q1, q2, t)" by (cases "ps ! nat j")
    from h pi have gi: "\<exists>x y. py_getitem ds p1 = Inr (a1, x) \<and> py_getitem ds p2 = Inr (b1, y)"
      using getitem_view_in_range[of i ps p1 p2 s ds]
      by (auto simp: len split: sum.splits prod.splits)
    from h pj have gj: "\<exists>x y. py_getitem ds q1 = Inr (a2, x) \<and> py_getitem ds q2 = Inr (b2, y)"
      using getitem_view_in_range[of j ps q1 q2 t ds]
      by (auto simp: len split: sum.splits prod.splits)
    show "a1 = a2" if "fst (ps ! nat i) = fst (ps ! nat j)"
      using that gi gj pi pj by auto
    show "b1 = b2" if "fst (snd (ps ! nat i)) = fst (snd (ps ! nat j))"
      using that gi gj pi pj by auto
    show "a1 = b2" if "fst (ps ! nat i) = fst (snd (ps ! nat j))"
      using that gi gj pi pj by auto
  }
qed

theorem paired_view_read_witness:
  "len_view (init_view [(''a'', 0::int), (''b'', 0), (''c'', 1)] [(0, 1, 0), (0, 2, 1)]) = 2
   \<and> getitem_view (init_view [(''a'', 0::int), (''b'', 0), (''c'', 1)] [(0, 1, 0), (0, 2, 1)]) 1
       = Inr ((''a'', ''c''), Fin 1)"
proof -
  let ?ds = "[(''a'', 0::int), (''b'', 0), (''c'', 1)]"
  let ?ps = "[(0::int, 1::int, 0::int), (0, 2, 1)]"
  note t = paired_view_read [of ?ds ?ps]
  from t have len: "len_view (init_view ?ds ?ps) = 2" by simp
  have "0 \<le> (1::int) \<and> 1 < len_view (init_view ?ds ?ps) \<and> ?ps ! nat 1 = (0, 2, 1)"
    using len by simp
  moreover have "0 \<le> (0::int) \<and> 0 < int (length ?ds) \<and> 0 \<le> (2::int) \<and> 2 < int (length ?ds)
                 \<and> \<bar>1::int\<bar> < 2 ^ 24"
    by simp
  ultimately have "getitem_view (init_view ?ds ?ps) 1
       = Inr ((fst (?ds ! nat 0), fst (?ds ! nat 2)), Fin (real_of_int 1))"
    using t by blast
  then have "getitem_view (init_view ?ds ?ps) 1 = Inr ((''a'', ''c''), Fin 1)"
    by (simp add: numeral_2_eq_2)
  with len show ?thesis by simp
qed

section \<open>Properties of the embedding model\<close>

text \<open>
  Claim C6. \<^verbatim>\<open>forward\<close> returns the pair of embeddings exactly when \<^verbatim>\<open>forward_once\<close>
  on the same module returns the first for \<open>input1\<close> and the second for \<open>input2\<close>,
  and it raises exactly when one of the two calls raises. For one module, the
  embedding of an input is the same whether the input is passed first or second.
\<close>

theorem siamese_forward_shared:
  "(SiameseNetwork_forward net a b = Inr (o1, o2)
      \<longleftrightarrow> forward_once net a = Inr o1 \<and> forward_once net b = Inr o2)
   \<and> (SiameseNetwork_forward net a b = Inl e
      \<longleftrightarrow> forward_once net a = Inl e
          \<or> (\<exists>o1. forward_once net a = Inr o1) \<and> forward_once net b = Inl e)
   \<and> (\<forall>x y z p q r s.
         SiameseNetwork_forward net x y = Inr (p, q) \<and> SiameseNetwork_forward net z x = Inr (r, s)
           \<longrightarrow> p = s)"
  by (auto simp: SiameseNetwork_forward_def split: sum.splits)

theorem siamese_forward_shared_witness:
  "SiameseNetwork_forward \<lparr>feature_extractor = (\<lambda>x. Inr [[[[x]]]]), fc = Inr\<rparr> (Fin 1) (Fin 2)
     = Inr ([[Fin 1]], [[Fin 2]])
   \<and> SiameseNetwork_forward \<lparr>feature_extractor = (\<lambda>x. Inr [[[[x]]]]), fc = Inr\<rparr> (Fin 2) (Fin 1)
     = Inr ([[Fin 2]], [[Fin 1]])"
  using siamese_forward_shared
          [of "\<lparr>feature_extractor = (\<lambda>x. Inr [[[[x]]]]), fc = Inr\<rparr>" "Fin 1" "Fin 2"
              "[[Fin 1]]" "[[Fin 2]]"]
        siamese_forward_shared
          [of "\<lparr>feature_extractor = (\<lambda>x. Inr [[[[x]]]]), fc = Inr\<rparr>" "Fin 2" "Fin 1"
              "[[Fin 2]]" "[[Fin 1]]"]
  by (simp add: forward_once_def view_flat_def)

section \<open>Properties of the contrastive objective\<close>

lemma collect_map_Inr:
  "\<forall>z \<in> set zs. f z = Inr (h z) \<Longrightarrow> collect (map f zs) = Inr (map h zs)"
  by (induction zs) auto

lemma tensor1_op_same_length:
  "length xs = length ys \<Longrightarrow> tensor1_op f xs ys = Inr (map2 f xs ys)"
  unfolding tensor1_op_def broadcast_def
  using collect_map_Inr[of "zip xs ys" "\<lambda>(a, b). Inr (f a b)" "\<lambda>(a, b). f a b"]
  by (simp add: case_prod_beta)

lemma tensor2_op_same_shape:
  assumes "length x1 = length x2" "\<forall>i < length x1. length (x1 ! i) = length (x2 ! i)"
  shows "tensor2_op f x1 x2 = Inr (map2 (map2 f) x1 x2)"
proof -
  have "\<forall>z \<in> set (zip x1 x2). (\<lambda>(a, b). tensor1_op f a b) z = Inr ((\<lambda>(a, b). map2 f a b) z)"
  proof
    fix z assume "z \<in> set (zip x1 x2)"
    then obtain i where "i < length x1" "z = (x1 ! i, x2 ! i)"
      using assms(1) by (auto simp: set_zip)
    with assms(2) show "(\<lambda>(a, b). tensor1_op f a b) z = Inr ((\<lambda>(a, b). map2 f a b) z)"
      by (simp add: tensor1_op_same_length)
  qed
  from collect_map_Inr[OF this] assms(1) show ?thesis
    by (simp add: tensor2_op_def broadcast_def)
qed

lemma shifted_row:
  "norm2 R (map (\<lambda>c. fadd R c (R eps)) (map2 (fsub R) a b)) = shifted_distance R a b"
proof -
  have "(\<lambda>c. fadd R c (R eps)) \<circ> (\<lambda>(x, y). fsub R x y)
          = (\<lambda>(x, y). fadd R (fsub R x y) (R eps))"
    by (auto simp: fun_eq_iff)
  then show ?thesis by (simp add: shifted_distance_def)
qed

lemma pairwise_distance_same_shape:
  assumes "length x1 = length x2" "\<forall>i < length x1. length (x1 ! i) = length (x2 ! i)"
  shows "pairwise_distance R x1 x2 = Inr (map2 (shifted_distance R) x1 x2)"
proof -
  have "map (\<lambda>row. norm2 R (map (\<lambda>c. fadd R c (R eps)) row)) (map2 (map2 (fsub R)) x1 x2)
          = map2 (shifted_distance R) x1 x2"
    by (intro nth_equalityI) (simp_all add: shifted_row del: map_map)
  with tensor2_op_same_shape[OF assms, of "fsub R"] show ?thesis
    by (simp add: pairwise_distance_def)
qed

lemma forward_given_distances:
  assumes "pairwise_distance R output1 output2 = Inr ds" "length label = length ds"
  shows "ContrastiveLoss_forward R self output1 output2 label
           = Inr (torch_mean R (map2 (pair_loss R (margin self)) label ds))"
proof -
  let ?m = "margin self"
  have a: "tensor1_op (fmul R) (map (\<lambda>l. fsub R (Fin 1) l) label) (map (fpow2 R) ds)
             = Inr (map2 (similar_term R) label ds)"
    using assms(2)
    by (simp add: tensor1_op_same_length zip_map_map case_prod_beta similar_term_def)
  have b: "tensor1_op (fmul R) label
             (map (fpow2 R) (map (\<lambda>d. clamp_min (fsub R (R ?m) d) 0) ds))
             = Inr (map2 (dissimilar_term R ?m) label ds)"
    using assms(2)
    by (simp add: tensor1_op_same_length zip_map2 case_prod_beta dissimilar_term_def)
  have c: "tensor1_op (fadd R) (map2 (similar_term R) label ds)
                               (map2 (dissimilar_term R ?m) label ds)
             = Inr (map2 (pair_loss R ?m) label ds)"
  proof -
    have "map2 (fadd R) (map2 (similar_term R) label ds) (map2 (dissimilar_term R ?m) label ds)
            = map2 (pair_loss R ?m) label ds"
      using assms(2) by (intro nth_equalityI) (simp_all add: pair_loss_def)
    then show ?thesis using assms(2) by (simp add: tensor1_op_same_length)
  qed
  show ?thesis
    using assms(1) a b c by (simp add: ContrastiveLoss_forward_def)
qed

lemma map2_by_index:
  "length xs = length ys \<Longrightarrow> map2 f xs ys = map (\<lambda>i. f (xs ! i) (ys ! i)) [0..<length xs]"
  by (intro nth_equalityI) simp_all

text \<open>
  Claim C1, amended. For a batch with one label per pair and the two embeddings of
  every pair of equal length, \<^verbatim>\<open>forward\<close> returns \<^verbatim>\<open>torch.mean\<close> of the per-pair
  values \<open>(1 - label) * d\<^sup>2 + label * max(0, margin - d)\<^sup>2\<close>, every operation being
  the float32 operation with its rounding \<open>R\<close>, whatever the rounding is: a value
  may overflow to an infinity or be NaN, and the mean of a batch without pairs is
  NaN. The distance \<open>d\<close> is the one \<^verbatim>\<open>pairwise_distance\<close> computes: the 2-norm of
  \<open>vA - vB + eps\<close>, with \<open>eps\<close> (one millionth) added to every coordinate of the
  difference.
\<close>

theorem contrastive_loss_formula:
  assumes "length output1 = length label" and "length output2 = length label"
      and "\<forall>i < length label. length (output1 ! i) = length (output2 ! i)"
  shows "ContrastiveLoss_forward R self output1 output2 label
           = Inr (batch_mean_loss R (shifted_distance R) (margin self) output1 output2 label)"
proof -
  let ?ds = "map2 (shifted_distance R) output1 output2"
  have pd: "pairwise_distance R output1 output2 = Inr ?ds"
    using assms by (intro pairwise_distance_same_shape) simp_all
  have len: "length label = length ?ds" using assms(1,2) by simp
  have "map2 (pair_loss R (margin self)) label ?ds
          = map (\<lambda>i. pair_loss R (margin self) (label ! i) (?ds ! i)) [0..<length label]"
    using len by (rule map2_by_index)
  also have "\<dots> = map (\<lambda>i. pair_loss R (margin self) (label ! i)
                           (shifted_distance R (output1 ! i) (output2 ! i))) [0..<length label]"
    using assms(1,2) by simp
  finally have "torch_mean R (map2 (pair_loss R (margin self)) label ?ds)
          = batch_mean_loss R (shifted_distance R) (margin self) output1 output2 label"
    by (simp add: batch_mean_loss_def)
  with forward_given_distances[OF pd len, of self] show ?thesis by simp
qed

lemma sign_preserving_exact: "sign_preserving exact_below_overflow"
  by (auto simp: sign_preserving_def exact_below_overflow_def)

lemma sqrt_eps_square: "sqrt (1 / 1000000000000) = 1 / 1000000"
  by (rule real_sqrt_unique) (simp_all add: power2_eq_square)

lemma pairwise_distance_single:
  "pairwise_distance R [[a]] [[b]] = Inr [fsqrt R (fpow2 R (fadd R (fsub R a b) (R eps)))]"
  by (simp add: pairwise_distance_def tensor2_op_def tensor1_op_def broadcast_def norm2_def)

lemma forward_single:
  "ContrastiveLoss_forward R self [[a]] [[b]] [l]
     = Inr (fdiv_count R (pair_loss R (margin self) l
              (fsqrt R (fpow2 R (fadd R (fsub R a b) (R eps))))) 1)"
  using forward_given_distances[OF pairwise_distance_single, of "[l]" R a b self]
  by (simp add: torch_mean_def)

theorem contrastive_loss_formula_witness:
  "ContrastiveLoss_forward exact_below_overflow \<lparr>margin = 1\<rparr>
       [[Fin 3, Fin 4], [Fin 0, Fin 0]] [[Fin 0, Fin 0], [Fin 0, Fin 0]] [Fin 1, Fin 0]
     = Inr (batch_mean_loss exact_below_overflow (shifted_distance exact_below_overflow) 1
              [[Fin 3, Fin 4], [Fin 0, Fin 0]] [[Fin 0, Fin 0], [Fin 0, Fin 0]] [Fin 1, Fin 0])"
proof -
  have shape: "\<forall>i < length [Fin 1, Fin 0].
                 length ([[Fin 3, Fin 4], [Fin 0, Fin 0]] ! i)
                   = length ([[Fin 0, Fin 0], [Fin 0, Fin 0]] ! i)"
    by (simp add: nth_Cons')
  from contrastive_loss_formula
          [of "[[Fin 3, Fin 4], [Fin 0, Fin 0]]" "[Fin 1, Fin 0]" "[[Fin 0, Fin 0], [Fin 0, Fin 0]]"
              exact_below_overflow "\<lparr>margin = 1\<rparr>", OF _ _ shape]
  show ?thesis by simp
qed

text \<open>
  With the Euclidean distance for \<open>d\<close>, as the claim is worded, the formula gives 0
  for two equal embeddings with label 0, and \<^verbatim>\<open>forward\<close> returns \<open>eps\<^sup>2\<close>.
\<close>

theorem contrastive_loss_formula_counterexample:
  "ContrastiveLoss_forward exact_below_overflow \<lparr>margin = 1\<rparr> [[Fin 0]] [[Fin 0]] [Fin 0]
       = Inr (Fin (1 / 1000000000000))
   \<and> batch_mean_loss exact_below_overflow (euclidean exact_below_overflow) 1
        [[Fin 0]] [[Fin 0]] [Fin 0] = Fin 0"
  by (simp add: forward_single batch_mean_loss_def euclidean_def norm2_def torch_mean_def
      pair_loss_def similar_term_def dissimilar_term_def fpow2_def
      fsub_def eps_def exact_below_overflow_def sqrt_eps_square)

text \<open>
  Signs. With a rounding that keeps signs, squares, products of non-negative
  factors, sums and means of non-negative floats are non-negative or NaN, and NaN
  arises only from a product of 0 and an infinity or from a NaN operand.
\<close>

lemma not_negative_simps [simp]:
  "not_negative (Fin y) = (0 \<le> y)" "not_negative PInf" "\<not> not_negative NInf" "\<not> not_negative NaN"
  by (simp_all add: not_negative_def)

lemma not_negative_round:
  assumes "sign_preserving R" "0 \<le> x"
  shows "not_negative (R x)"
proof -
  from assms have "R x = PInf \<or> (\<exists>y\<ge>0. R x = Fin y)"
    unfolding sign_preserving_def by blast
  then show ?thesis by auto
qed

lemma fpow2_sign: "sign_preserving R \<Longrightarrow> fpow2 R d = NaN \<or> not_negative (fpow2 R d)"
  by (cases d) (simp_all add: fpow2_def not_negative_round)

lemma fadd_sign:
  "sign_preserving R \<Longrightarrow> not_negative a \<Longrightarrow> not_negative b \<Longrightarrow> not_negative (fadd R a b)"
  by (cases a; cases b) (simp_all add: not_negative_round)

lemma foldl_fadd_sign:
  "sign_preserving R \<Longrightarrow> not_negative acc \<Longrightarrow> \<forall>x \<in> set xs. not_negative x \<Longrightarrow>
     not_negative (foldl (fadd R) acc xs)"
  by (induction xs arbitrary: acc) (simp_all add: fadd_sign)

lemma torch_mean_sign:
  assumes "sign_preserving R" "xs \<noteq> []" "\<forall>x \<in> set xs. not_negative x"
  shows "not_negative (torch_mean R xs)"
proof -
  from assms(2) obtain y ys where xs: "xs = y # ys" by (cases xs) auto
  with assms have s: "not_negative (fsum R xs)" by (simp add: foldl_fadd_sign)
  have "not_negative (fdiv_count R v (length xs))" if "not_negative v" for v
    using that assms(1) by (cases v) (simp_all add: not_negative_round)
  with s assms(2) show ?thesis by (simp add: torch_mean_def)
qed

lemma foldl_fadd_zero:
  "R 0 = Fin 0 \<Longrightarrow> \<forall>x \<in> set xs. x = Fin 0 \<Longrightarrow> foldl (fadd R) (Fin 0) xs = Fin 0"
  by (induction xs) simp_all

lemma torch_mean_zero:
  assumes "R 0 = Fin 0" "xs \<noteq> []" "\<forall>x \<in> set xs. x = Fin 0"
  shows "torch_mean R xs = Fin 0"
proof -
  from assms(2) obtain y ys where xs: "xs = y # ys" by (cases xs) auto
  with assms have "fsum R xs = Fin 0" by (simp add: foldl_fadd_zero)
  with assms(1,2) show ?thesis by (simp add: torch_mean_def)
qed

lemma pair_loss_zero_similar:
  assumes "sign_preserving R" "is_fin (fpow2 R (clamp_min (fsub R (R m) (Fin 0)) 0))"
  shows "pair_loss R m (Fin 0) (Fin 0) = Fin 0"
proof -
  from assms(1) have r: "R 0 = Fin 0" "R 1 = Fin 1" by (simp_all add: sign_preserving_def)
  from assms(2) obtain z where "fpow2 R (clamp_min (fsub R (R m) (Fin 0)) 0) = Fin z"
    by (auto simp: is_fin_def split: ieee.splits)
  with r show ?thesis
    by (simp add: pair_loss_def similar_term_def dissimilar_term_def fsub_def fpow2_def)
qed

lemma pair_loss_zero_dissimilar:
  assumes "sign_preserving R" "is_fin (fpow2 R (Fin x))" "R m = Fin \<mu>" "\<mu> \<le> x"
  shows "pair_loss R m (Fin 1) (Fin x) = Fin 0"
proof -
  from assms(1) have r: "R 0 = Fin 0" "R 1 = Fin 1" by (simp_all add: sign_preserving_def)
  from assms(2) obtain z where z: "fpow2 R (Fin x) = Fin z"
    by (auto simp: is_fin_def split: ieee.splits)
  from assms(1,4) have "R (\<mu> - x) = NInf \<or> (\<exists>y \<le> 0. R (\<mu> - x) = Fin y)"
    by (simp add: sign_preserving_def)
  then have "clamp_min (fsub R (R m) (Fin x)) 0 = Fin 0"
    using assms(3) by (auto simp: fsub_def max_def)
  with r z show ?thesis
    by (simp add: pair_loss_def similar_term_def dissimilar_term_def fsub_def fpow2_def)
qed

text \<open>
  The rounding of float32 keeps signs, so what follows holds of the arithmetic
  \<^verbatim>\<open>forward\<close> runs on.
\<close>

lemma nearest_even_nonneg: "0 \<le> t \<Longrightarrow> 0 \<le> nearest_even t"
  by (auto simp: nearest_even_def Let_def)

lemma nearest_even_nonpos: "t \<le> 0 \<Longrightarrow> nearest_even t \<le> 0"
proof -
  assume t: "t \<le> 0"
  show ?thesis
  proof (cases "t = of_int \<lfloor>t\<rfloor>")
    case True
    with t have "\<lfloor>t\<rfloor> \<le> 0" by linarith
    with True show ?thesis by (simp add: nearest_even_def Let_def)
  next
    case False
    then have "of_int \<lfloor>t\<rfloor> < t" by linarith
    with t have "\<lfloor>t\<rfloor> + 1 \<le> 0" by linarith
    then show ?thesis by (auto simp: nearest_even_def Let_def)
  qed
qed

lemma nearest_even_of_int: "nearest_even (of_int n) = n"
  by (simp add: nearest_even_def)

lemma float32_round_one: "float32_round 1 = Fin 1"
proof -
  have "(1::real) / 2 powi (- 23) = of_int (2 ^ 23)"
    by (simp add: power_int_minus field_simps)
  then have "nearest_even (1 / 2 powi (- 23)) = 2 ^ 23"
    by (simp only: nearest_even_of_int)
  then show ?thesis
    by (simp add: float32_round_def power_int_minus)
qed

lemma sign_preserving_float32: "sign_preserving float32_round"
proof -
  have pos: "float32_round x = PInf \<or> (\<exists>y\<ge>0. float32_round x = Fin y)" if "0 \<le> x" for x
  proof (cases "x = 0")
    case True
    then show ?thesis by (simp add: float32_round_def)
  next
    case False
    define q :: real where "q = 2 powi (max \<lfloor>log 2 \<bar>x\<bar>\<rfloor> (- 126) - 23)"
    have "0 < q" by (simp add: q_def)
    with that have "0 \<le> x / q" by simp
    then have "0 \<le> nearest_even (x / q)" by (rule nearest_even_nonneg)
    with \<open>0 < q\<close> have "0 \<le> of_int (nearest_even (x / q)) * q" by simp
    with False show ?thesis
      by (auto simp: float32_round_def Let_def q_def)
  qed
  have neg: "float32_round x = NInf \<or> (\<exists>y\<le>0. float32_round x = Fin y)" if "x \<le> 0" for x
  proof (cases "x = 0")
    case True
    then show ?thesis by (simp add: float32_round_def)
  next
    case False
    define q :: real where "q = 2 powi (max \<lfloor>log 2 \<bar>x\<bar>\<rfloor> (- 126) - 23)"
    have "0 < q" by (simp add: q_def)
    with that have "x / q \<le> 0" by (simp add: divide_le_0_iff)
    then have "nearest_even (x / q) \<le> 0" by (rule nearest_even_nonpos)
    with \<open>0 < q\<close> have y: "of_int (nearest_even (x / q)) * q \<le> 0"
      by (simp add: mult_le_0_iff)
    have "\<not> (2::real) ^ 128 \<le> of_int (nearest_even (x / q)) * q"
    proof
      assume big: "(2::real) ^ 128 \<le> of_int (nearest_even (x / q)) * q"
      from big y have "(2::real) ^ 128 \<le> 0" by (rule order_trans)
      then show False by simp
    qed
    with False y show ?thesis
      by (auto simp: float32_round_def Let_def q_def)
  qed
  from pos neg float32_round_one show ?thesis
    by (simp add: sign_preserving_def float32_round_def)
qed

lemma fmul_sign:
  assumes "sign_preserving R" "not_negative a" "b = NaN \<or> not_negative b" "fmul R a b \<noteq> NaN"
  shows "not_negative (fmul R a b)"
  using assms
  by (cases a; cases b) (simp_all add: not_negative_round signed_inf_def split: if_splits)

lemma pair_loss_not_negative:
  assumes "sign_preserving R" "0 \<le> l" "l \<le> 1"
      and "similar_term R (Fin l) d \<noteq> NaN" "dissimilar_term R m (Fin l) d \<noteq> NaN"
  shows "not_negative (pair_loss R m (Fin l) d)"
proof -
  have one: "not_negative (fsub R (Fin 1) (Fin l))"
    using assms(1,3) by (simp add: fsub_def not_negative_round)
  have s: "not_negative (similar_term R (Fin l) d)"
    unfolding similar_term_def
    using assms(1) one fpow2_sign[OF assms(1)] assms(4)[unfolded similar_term_def]
    by (rule fmul_sign)
  have l: "not_negative (Fin l)" using assms(2) by simp
  have t: "not_negative (dissimilar_term R m (Fin l) d)"
    unfolding dissimilar_term_def
    using assms(1) l fpow2_sign[OF assms(1)] assms(5)[unfolded dissimilar_term_def]
    by (rule fmul_sign)
  from assms(1) s t show ?thesis unfolding pair_loss_def by (rule fadd_sign)
qed

lemma map2_all:
  assumes "length xs = length ys" "\<forall>i < length xs. P (f (xs ! i) (ys ! i))"
  shows "\<forall>v \<in> set (map2 f xs ys). P v"
proof
  fix v assume "v \<in> set (map2 f xs ys)"
  then obtain i where "i < length xs" "v = f (xs ! i) (ys ! i)"
    using assms(1) by (auto simp: set_zip)
  with assms(2) show "P v" by simp
qed

text \<open>
  Claim C7, amended. Let the rounding keep signs, and let \<^verbatim>\<open>pairwise_distance\<close>
  return the distances \<open>ds\<close> of a non-empty batch with one label per pair.
  \<^item> If every label is a number between 0 and 1, as the similarity labels 0 and 1
    are, and neither product of any pair, \<open>(1 - label) * d\<^sup>2\<close> or
    \<open>label * max(0, margin - d)\<^sup>2\<close>, is NaN, then the loss is a non-negative number
    or \<open>+inf\<close>. A product is NaN when the distance is NaN, or when a factor 0 meets a
    square that has overflowed to an infinity.
  \<^item> If every pair has label 0, computed distance 0 and a finite
    \<open>max(0, margin - d)\<^sup>2\<close>, or label 1, a finite \<open>d\<^sup>2\<close> and a computed distance
    that is at least the margin taken to float32, then the loss is 0.
\<close>

theorem contrastive_loss_nonneg_zero:
  assumes "sign_preserving R"
      and "pairwise_distance R output1 output2 = Inr ds"
      and "length label = length ds" and "ds \<noteq> []"
  shows "((\<forall>i < length label.
             (\<exists>l. label ! i = Fin l \<and> 0 \<le> l \<and> l \<le> 1)
             \<and> similar_term R (label ! i) (ds ! i) \<noteq> NaN
             \<and> dissimilar_term R (margin self) (label ! i) (ds ! i) \<noteq> NaN)
          \<longrightarrow> (\<exists>v. ContrastiveLoss_forward R self output1 output2 label = Inr v
                    \<and> not_negative v))
       \<and> ((\<forall>i < length label.
               (label ! i = Fin 0 \<and> ds ! i = Fin 0
                  \<and> is_fin (fpow2 R (clamp_min (fsub R (R (margin self)) (ds ! i)) 0)))
             \<or> (label ! i = Fin 1 \<and> is_fin (fpow2 R (ds ! i))
                  \<and> (\<exists>x \<mu>. ds ! i = Fin x \<and> R (margin self) = Fin \<mu> \<and> \<mu> \<le> x)))
          \<longrightarrow> ContrastiveLoss_forward R self output1 output2 label = Inr (Fin 0))"
proof -
  let ?m = "margin self"
  let ?per_pair = "map2 (pair_loss R ?m) label ds"
  have fw: "ContrastiveLoss_forward R self output1 output2 label = Inr (torch_mean R ?per_pair)"
    using assms(2,3) by (rule forward_given_distances)
  have ne: "?per_pair \<noteq> []" using assms(3,4) by (cases label; cases ds) simp_all
  have r0: "R 0 = Fin 0" using assms(1) by (simp add: sign_preserving_def)
  have sign: "\<exists>v. ContrastiveLoss_forward R self output1 output2 label = Inr v \<and> not_negative v"
    if h: "\<forall>i < length label.
             (\<exists>l. label ! i = Fin l \<and> 0 \<le> l \<and> l \<le> 1)
             \<and> similar_term R (label ! i) (ds ! i) \<noteq> NaN
             \<and> dissimilar_term R (margin self) (label ! i) (ds ! i) \<noteq> NaN"
  proof -
    have "\<forall>i < length label. not_negative (pair_loss R ?m (label ! i) (ds ! i))"
    proof (intro allI impI)
      fix i assume i: "i < length label"
      with h obtain l where l: "label ! i = Fin l" "0 \<le> l" "l \<le> 1" by blast
      from h i l(1) have "similar_term R (Fin l) (ds ! i) \<noteq> NaN"
        "dissimilar_term R ?m (Fin l) (ds ! i) \<noteq> NaN" by auto
      with assms(1) l(2,3) have "not_negative (pair_loss R ?m (Fin l) (ds ! i))"
        by (rule pair_loss_not_negative)
      with l(1) show "not_negative (pair_loss R ?m (label ! i) (ds ! i))" by simp
    qed
    with assms(3) have "\<forall>v \<in> set ?per_pair. not_negative v" by (rule map2_all)
    with assms(1) ne have "not_negative (torch_mean R ?per_pair)" by (rule torch_mean_sign)
    with fw show ?thesis by simp
  qed
  have zero: "ContrastiveLoss_forward R self output1 output2 label = Inr (Fin 0)"
    if h: "\<forall>i < length label.
               (label ! i = Fin 0 \<and> ds ! i = Fin 0
                  \<and> is_fin (fpow2 R (clamp_min (fsub R (R (margin self)) (ds ! i)) 0)))
             \<or> (label ! i = Fin 1 \<and> is_fin (fpow2 R (ds ! i))
                  \<and> (\<exists>x \<mu>. ds ! i = Fin x \<and> R (margin self) = Fin \<mu> \<and> \<mu> \<le> x))"
  proof -
    have "\<forall>i < length label. pair_loss R ?m (label ! i) (ds ! i) = Fin 0"
    proof (intro allI impI)
      fix i assume i: "i < length label"
      with h consider
          (similar) "label ! i = Fin 0" "ds ! i = Fin 0"
            "is_fin (fpow2 R (clamp_min (fsub R (R ?m) (ds ! i)) 0))"
        | (dissimilar) x \<mu> where "label ! i = Fin 1" "is_fin (fpow2 R (ds ! i))"
            "ds ! i = Fin x" "R ?m = Fin \<mu>" "\<mu> \<le> x"
        by blast
      then show "pair_loss R ?m (label ! i) (ds ! i) = Fin 0"
      proof cases
        case similar
        with assms(1) show ?thesis by (simp add: pair_loss_zero_similar)
      next
        case dissimilar
        with assms(1) show ?thesis by (simp add: pair_loss_zero_dissimilar)
      qed
    qed
    with assms(3) have "\<forall>v \<in> set ?per_pair. v = Fin 0" by (rule map2_all)
    with r0 ne have "torch_mean R ?per_pair = Fin 0" by (rule torch_mean_zero)
    with fw show ?thesis by simp
  qed
  from sign zero show ?thesis by blast
qed

lemma sqrt_shifted_three: "sqrt (9000006000001 / 1000000000000) = 3000001 / 1000000"
  by (rule real_sqrt_unique) (simp_all add: power2_eq_square)

lemma distances_example:
  "pairwise_distance exact_below_overflow
       [[Fin 3], [Fin 0]] [[Fin 0], [Fin (1 / 1000000)]]
     = Inr [Fin (3000001 / 1000000), Fin 0]"
  by (simp add: pairwise_distance_def tensor2_op_def tensor1_op_def broadcast_def norm2_def
      fpow2_def fsub_def eps_def exact_below_overflow_def sqrt_shifted_three)

theorem contrastive_loss_nonneg_zero_witness:
  "sign_preserving exact_below_overflow
   \<and> pairwise_distance exact_below_overflow
        [[Fin 3], [Fin 0]] [[Fin 0], [Fin (1 / 1000000)]]
       = Inr [Fin (3000001 / 1000000), Fin 0]
   \<and> ContrastiveLoss_forward exact_below_overflow \<lparr>margin = 1\<rparr>
        [[Fin 3], [Fin 0]] [[Fin 0], [Fin (1 / 1000000)]] [Fin 1, Fin 0] = Inr (Fin 0)
   \<and> (\<exists>v. ContrastiveLoss_forward exact_below_overflow \<lparr>margin = 1\<rparr>
            [[Fin 3], [Fin 0]] [[Fin 0], [Fin (1 / 1000000)]] [Fin 1, Fin 0] = Inr v
          \<and> not_negative v)"
proof -
  let ?R = exact_below_overflow
  let ?ds = "[Fin (3000001 / 1000000), Fin 0]"
  let ?label = "[Fin 1, Fin 0]"
  note inst = contrastive_loss_nonneg_zero
               [OF sign_preserving_exact distances_example, of ?label "\<lparr>margin = 1\<rparr>"]
  have range: "\<forall>i < length ?label.
             (\<exists>l. ?label ! i = Fin l \<and> 0 \<le> l \<and> l \<le> 1)
             \<and> similar_term ?R (?label ! i) (?ds ! i) \<noteq> NaN
             \<and> dissimilar_term ?R (margin \<lparr>margin = 1\<rparr>) (?label ! i) (?ds ! i) \<noteq> NaN"
    by (simp add: All_less_Suc similar_term_def dissimilar_term_def fpow2_def fsub_def
        exact_below_overflow_def)
  have zero: "\<forall>i < length ?label.
               (?label ! i = Fin 0 \<and> ?ds ! i = Fin 0
                  \<and> is_fin (fpow2 ?R (clamp_min (fsub ?R (?R (margin \<lparr>margin = 1\<rparr>)) (?ds ! i)) 0)))
             \<or> (?label ! i = Fin 1 \<and> is_fin (fpow2 ?R (?ds ! i))
                  \<and> (\<exists>x \<mu>. ?ds ! i = Fin x \<and> ?R (margin \<lparr>margin = 1\<rparr>) = Fin \<mu> \<and> \<mu> \<le> x))"
  proof -
    have far: "\<exists>x \<mu>. Fin (3000001 / 1000000) = Fin x \<and> ?R 1 = Fin \<mu> \<and> \<mu> \<le> x"
      by (rule exI[of _ "3000001 / 1000000"], rule exI[of _ 1])
         (simp add: exact_below_overflow_def)
    have square: "is_fin (fpow2 ?R (Fin (3000001 / 1000000)))"
      by (simp add: fpow2_def exact_below_overflow_def is_fin_def)
    have near: "is_fin (fpow2 ?R (clamp_min (fsub ?R (?R 1) (Fin 0)) 0))"
      by (simp add: fpow2_def fsub_def exact_below_overflow_def is_fin_def)
    have "\<forall>i < Suc (Suc 0). i = 0 \<or> i = 1" by auto
    with far square near show ?thesis by (auto simp: nth_Cons')
  qed
  from inst range zero sign_preserving_exact distances_example show ?thesis by simp
qed

text \<open>
  As the claim is worded it fails three times: a label of 2 gives a negative loss;
  two equal embeddings with label 0, whose Euclidean distance is 0, give the loss
  \<open>eps\<^sup>2\<close>; and for label 1 and two embeddings \<open>10\<^sup>2\<^sup>0\<close> apart the square of the
  distance overflows, the first product is \<open>0 * inf\<close>, and the loss is NaN.
\<close>

theorem contrastive_loss_nonneg_zero_counterexample:
  "ContrastiveLoss_forward exact_below_overflow \<lparr>margin = 1\<rparr> [[Fin 3]] [[Fin 0]] [Fin 2]
       = Inr (Fin (- (9000006000001 / 1000000000000)))
   \<and> ContrastiveLoss_forward exact_below_overflow \<lparr>margin = 1\<rparr> [[Fin 5]] [[Fin 5]] [Fin 0]
       = Inr (Fin (1 / 1000000000000))
   \<and> ContrastiveLoss_forward exact_below_overflow \<lparr>margin = 1\<rparr>
        [[Fin 100000000000000000000]] [[Fin 0]] [Fin 1] = Inr NaN"
  by (simp add: forward_single pair_loss_def similar_term_def dissimilar_term_def fpow2_def
      fsub_def eps_def exact_below_overflow_def sqrt_shifted_three sqrt_eps_square
      signed_inf_def)

section \<open>Properties of the training loop\<close>

lemma float_less_irrefl: "\<not> float_less a a"
  by (cases a) simp_all

lemma float_less_trans: "float_less a b \<Longrightarrow> float_less b c \<Longrightarrow> float_less a c"
  by (cases a; cases b; cases c) simp_all

lemma float_less_below_PInf: "float_less a b \<Longrightarrow> float_less a PInf"
  by (cases a; cases b) simp_all

lemma not_below_PInf: "\<not> float_less a PInf \<longleftrightarrow> a = NaN \<or> a = PInf"
  by (cases a) simp_all

lemma float_less_not_above:
  "float_less v b \<Longrightarrow> \<not> float_less x b \<Longrightarrow> x = NaN \<or> float_less v x"
  by (cases v; cases b; cases x) simp_all

lemma epoch_body_improved:
  assumes "improves T s"
  shows "best_checkpoint (epoch_body T s) = Some (params_of T s)"
    and "early_stop_counter (epoch_body T s) = 0"
    and "best_val_loss (epoch_body T s) = val_loss_of T s"
  using assms
  by (simp_all add: epoch_body_def checkpoint_decision_def val_loss_of_def params_of_def
      improves_def case_prod_beta)

lemma epoch_body_not_improved:
  assumes "\<not> improves T s"
  shows "best_checkpoint (epoch_body T s) = best_checkpoint s"
    and "early_stop_counter (epoch_body T s) = early_stop_counter s + 1"
    and "best_val_loss (epoch_body T s) = best_val_loss s"
  using assms
  by (simp_all add: epoch_body_def checkpoint_decision_def val_loss_of_def params_of_def
      improves_def case_prod_beta)

lemma epoch_body_epochs_done: "epochs_done (epoch_body T s) = Suc (epochs_done s)"
  by (simp add: epoch_body_def checkpoint_decision_def case_prod_beta)

lemma after_epochs_0: "after_epochs T w 0 = initial_state w"
  by (simp add: after_epochs_def)

lemma after_epochs_Suc: "after_epochs T w (Suc n) = epoch_body T (after_epochs T w n)"
  by (simp add: after_epochs_def)

lemma after_epochs_epochs_done: "epochs_done (after_epochs T w n) = n"
  by (induction n) (simp_all add: after_epochs_0 after_epochs_Suc epoch_body_epochs_done initial_state_def)

lemma best_after_epochs:
  "(\<forall>j < N. \<not> float_less (val_loss_of T (after_epochs T w j)) PInf)
     \<and> best_checkpoint (after_epochs T w N) = None
     \<and> best_val_loss (after_epochs T w N) = PInf
   \<or> (\<exists>k < N.
         float_less (val_loss_of T (after_epochs T w k)) PInf
       \<and> best_checkpoint (after_epochs T w N) = Some (params_of T (after_epochs T w k))
       \<and> best_val_loss (after_epochs T w N) = val_loss_of T (after_epochs T w k)
       \<and> (\<forall>j < N. \<not> float_less (val_loss_of T (after_epochs T w j))
                                (val_loss_of T (after_epochs T w k)))
       \<and> (\<forall>j < k. val_loss_of T (after_epochs T w j) = NaN
                   \<or> float_less (val_loss_of T (after_epochs T w k))
                        (val_loss_of T (after_epochs T w j))))"
  (is "?none N \<or> ?some N")
proof (induction N)
  case 0
  show ?case by (simp add: after_epochs_0 initial_state_def)
next
  case (Suc n)
  let ?s = "after_epochs T w n"
  let ?v = "val_loss_of T ?s"
  let ?loss = "\<lambda>j. val_loss_of T (after_epochs T w j)"
  from Suc.IH show ?case
  proof
    assume none: "?none n"
    show ?thesis
    proof (cases "float_less ?v PInf")
      case True
      with none have imp: "improves T ?s" by (simp add: improves_def)
      have "\<forall>j < Suc n. \<not> float_less (?loss j) ?v"
      proof (intro allI impI)
        fix j assume "j < Suc n"
        show "\<not> float_less (?loss j) ?v"
        proof (cases "j = n")
          case True
          then show ?thesis by (simp add: float_less_irrefl)
        next
          case False
          with \<open>j < Suc n\<close> none have "?loss j = NaN \<or> ?loss j = PInf"
            by (simp add: not_below_PInf)
          then show ?thesis by auto
        qed
      qed
      moreover have "\<forall>j < n. ?loss j = NaN \<or> float_less ?v (?loss j)"
        using none True by (auto simp: not_below_PInf)
      ultimately have "?some (Suc n)"
        using epoch_body_improved[OF imp] True
        by (intro exI[of _ n]) (simp add: after_epochs_Suc)
      then show ?thesis ..
    next
      case False
      with none have "\<not> improves T ?s" by (simp add: improves_def)
      from epoch_body_not_improved[OF this] none False have "?none (Suc n)"
        by (simp add: after_epochs_Suc less_Suc_eq)
      then show ?thesis ..
    qed
  next
    assume "?some n"
    then obtain k where k: "k < n" "float_less (?loss k) PInf"
        "best_checkpoint ?s = Some (params_of T (after_epochs T w k))"
        "best_val_loss ?s = ?loss k"
        "\<forall>j < n. \<not> float_less (?loss j) (?loss k)"
        "\<forall>j < k. ?loss j = NaN \<or> float_less (?loss k) (?loss j)"
      by blast
    show ?thesis
    proof (cases "float_less ?v (?loss k)")
      case True
      with k(4) have imp: "improves T ?s" by (simp add: improves_def)
      have "\<forall>j < Suc n. \<not> float_less (?loss j) ?v"
      proof (intro allI impI)
        fix j assume "j < Suc n"
        show "\<not> float_less (?loss j) ?v"
        proof (cases "j = n")
          case True
          then show ?thesis by (simp add: float_less_irrefl)
        next
          case False
          with \<open>j < Suc n\<close> k(5) have "\<not> float_less (?loss j) (?loss k)" by simp
          with True show ?thesis using float_less_trans by blast
        qed
      qed
      moreover have "\<forall>j < n. ?loss j = NaN \<or> float_less ?v (?loss j)"
        using True k(5) float_less_not_above by blast
      moreover have "float_less ?v PInf" using True by (rule float_less_below_PInf)
      ultimately have "?some (Suc n)"
        using epoch_body_improved[OF imp]
        by (intro exI[of _ n]) (simp add: after_epochs_Suc)
      then show ?thesis ..
    next
      case False
      with k(4) have "\<not> improves T ?s" by (simp add: improves_def)
      from epoch_body_not_improved[OF this] k False have "?some (Suc n)"
        by (intro exI[of _ k]) (simp add: after_epochs_Suc less_Suc_eq)
      then show ?thesis ..
    qed
  qed
qed

lemma training_loop_char:
  "\<exists>m \<le> n. training_loop T n s = (epoch_body T ^^ m) s
      \<and> (\<forall>j. 0 < j \<and> j < m \<longrightarrow> early_stop_counter ((epoch_body T ^^ j) s) < patience)
      \<and> (m < n \<longrightarrow> 0 < m \<and> patience \<le> early_stop_counter ((epoch_body T ^^ m) s))"
proof (induction n arbitrary: s)
  case 0
  show ?case by simp
next
  case (Suc n)
  let ?s' = "epoch_body T s"
  show ?case
  proof (cases "patience \<le> early_stop_counter ?s'")
    case True
    then have "training_loop T (Suc n) s = (epoch_body T ^^ 1) s" by (simp add: Let_def)
    with True show ?thesis by (intro exI[of _ 1]) simp
  next
    case False
    from Suc.IH[of ?s'] obtain m where m: "m \<le> n"
        "training_loop T n ?s' = (epoch_body T ^^ m) ?s'"
        "\<forall>j. 0 < j \<and> j < m \<longrightarrow> early_stop_counter ((epoch_body T ^^ j) ?s') < patience"
        "m < n \<longrightarrow> 0 < m \<and> patience \<le> early_stop_counter ((epoch_body T ^^ m) ?s')"
      by blast
    have shift: "(epoch_body T ^^ Suc k) s = (epoch_body T ^^ k) ?s'" for k
      by (simp add: funpow_swap1)
    have "training_loop T (Suc n) s = (epoch_body T ^^ Suc m) s"
      using False m(2) by (simp add: Let_def funpow_swap1)
    moreover have "early_stop_counter ((epoch_body T ^^ j) s) < patience"
      if "0 < j \<and> j < Suc m" for j
    proof (cases j)
      case 0
      with that show ?thesis by simp
    next
      case (Suc j')
      show ?thesis
      proof (cases "j' = 0")
        case True
        with Suc False show ?thesis by simp
      next
        case False
        with that Suc m(3) have "early_stop_counter ((epoch_body T ^^ j') ?s') < patience"
          by simp
        with Suc show ?thesis by (simp only: shift)
      qed
    qed
    moreover have "Suc m < Suc n \<longrightarrow> 0 < Suc m
                     \<and> patience \<le> early_stop_counter ((epoch_body T ^^ Suc m) s)"
      using m(4) by (simp only: shift) simp
    ultimately show ?thesis using m(1) by (intro exI[of _ "Suc m"]) blast
  qed
qed

lemma run_training_char:
  "\<exists>m \<le> nat num_epochs. run_training T w = after_epochs T w m
      \<and> epochs_done (run_training T w) = m
      \<and> (\<forall>j. 0 < j \<and> j < m \<longrightarrow> early_stop_counter (after_epochs T w j) < patience)
      \<and> (m < nat num_epochs \<longrightarrow> 0 < m \<and> patience \<le> early_stop_counter (after_epochs T w m))"
proof -
  from training_loop_char[of "nat num_epochs" T "initial_state w"] obtain m where
    m: "m \<le> nat num_epochs" "run_training T w = after_epochs T w m"
       "\<forall>j. 0 < j \<and> j < m \<longrightarrow> early_stop_counter (after_epochs T w j) < patience"
       "m < nat num_epochs \<longrightarrow> 0 < m \<and> patience \<le> early_stop_counter (after_epochs T w m)"
    unfolding run_training_def after_epochs_def by blast
  from m(2) have "epochs_done (run_training T w) = m" by (simp add: after_epochs_epochs_done)
  with m show ?thesis by blast
qed

lemma counter_step:
  "0 \<le> early_stop_counter s \<Longrightarrow> early_stop_counter (epoch_body T s) \<le> early_stop_counter s + 1"
  by (simp add: epoch_body_def checkpoint_decision_def case_prod_beta)

lemma counter_nonneg: "0 \<le> early_stop_counter (after_epochs T w n)"
proof (induction n)
  case 0
  show ?case by (simp add: after_epochs_0 initial_state_def)
next
  case (Suc n)
  then show ?case
    by (simp add: after_epochs_Suc epoch_body_def checkpoint_decision_def case_prod_beta)
qed

lemma counter_below_epochs: "early_stop_counter (after_epochs T w n) \<le> int n"
proof (induction n)
  case 0
  show ?case by (simp add: after_epochs_0 initial_state_def)
next
  case (Suc n)
  from counter_step[OF counter_nonneg, of T T w n] Suc.IH show ?case
    by (simp add: after_epochs_Suc)
qed

lemma counter_counts_stale_epochs:
  "\<forall>j. int n - early_stop_counter (after_epochs T w n) \<le> int j \<and> j < n \<longrightarrow>
       \<not> improves T (after_epochs T w j)"
proof (induction n)
  case 0
  show ?case by simp
next
  case (Suc n)
  let ?s = "after_epochs T w n"
  show ?case
  proof (cases "improves T ?s")
    case True
    from epoch_body_improved(2)[OF this] show ?thesis by (auto simp: after_epochs_Suc)
  next
    case False
    from epoch_body_not_improved(2)[OF this]
    have c: "early_stop_counter (after_epochs T w (Suc n)) = early_stop_counter ?s + 1"
      by (simp add: after_epochs_Suc)
    show ?thesis
    proof (intro allI impI)
      fix j assume "int (Suc n) - early_stop_counter (after_epochs T w (Suc n)) \<le> int j \<and> j < Suc n"
      then have j: "int n - early_stop_counter ?s \<le> int j" "j < Suc n" using c by simp_all
      show "\<not> improves T (after_epochs T w j)"
      proof (cases "j = n")
        case True
        with False show ?thesis by simp
      next
        case False
        with j have "j < n" by simp
        with j(1) Suc.IH show ?thesis by blast
      qed
    qed
  qed
qed

lemma stale_epochs_counted:
  "c \<le> m \<Longrightarrow> (\<forall>j. m - c \<le> j \<and> j < m \<longrightarrow> \<not> improves T (after_epochs T w j)) \<Longrightarrow>
     int c \<le> early_stop_counter (after_epochs T w m)"
proof (induction c arbitrary: m)
  case 0
  show ?case using counter_nonneg[of T w m] by simp
next
  case (Suc c)
  from Suc.prems(1) obtain m' where m: "m = Suc m'" by (cases m) auto
  with Suc.prems(1) have le: "c \<le> m'" by simp
  have "\<forall>j. m' - c \<le> j \<and> j < m' \<longrightarrow> \<not> improves T (after_epochs T w j)"
    using Suc.prems(2) m by auto
  from Suc.IH[OF le this] have ih: "int c \<le> early_stop_counter (after_epochs T w m')" .
  have "\<not> improves T (after_epochs T w m')" using Suc.prems(2) m by auto
  from epoch_body_not_improved(2)[OF this] ih show ?case
    by (simp add: m after_epochs_Suc)
qed

text \<open>
  Claim C4, amended. In every pass of the loop body: if the validation loss of the
  pass is below \<^verbatim>\<open>best_val_loss\<close> in the comparison of floats, the parameters are
  saved as the new checkpoint, the counter becomes 0 and the loss becomes the new
  best; otherwise, which includes every loss that is NaN, the checkpoint and the
  best loss stay and the counter grows by one. After \<open>N\<close> passes:
  \<^item> if one of the first \<open>N\<close> validation losses is below \<open>+inf\<close> (it is then neither
    NaN nor \<open>+inf\<close>), the saved checkpoint is the one written in a pass \<open>k < N\<close> whose
    loss is below \<open>+inf\<close> and has none of the first \<open>N\<close> losses below it, every loss
    before pass \<open>k\<close> being NaN or above it, and \<^verbatim>\<open>best_val_loss\<close> is that loss;
  \<^item> if none is, nothing has been saved and \<^verbatim>\<open>best_val_loss\<close> is still \<open>+inf\<close>.

  The loop itself ends in the state after as many passes as it has completed, at
  least one.
\<close>

theorem best_checkpoint_invariant:
  "(\<forall>s. if float_less (val_loss_of T s) (best_val_loss s)
        then best_checkpoint (epoch_body T s) = Some (params_of T s)
           \<and> early_stop_counter (epoch_body T s) = 0
           \<and> best_val_loss (epoch_body T s) = val_loss_of T s
        else best_checkpoint (epoch_body T s) = best_checkpoint s
           \<and> early_stop_counter (epoch_body T s) = early_stop_counter s + 1
           \<and> best_val_loss (epoch_body T s) = best_val_loss s)
   \<and> (\<forall>N. (\<exists>j < N. float_less (val_loss_of T (after_epochs T w j)) PInf) \<longrightarrow>
         (\<exists>k < N.
            float_less (val_loss_of T (after_epochs T w k)) PInf
          \<and> best_checkpoint (after_epochs T w N) = Some (params_of T (after_epochs T w k))
          \<and> best_val_loss (after_epochs T w N) = val_loss_of T (after_epochs T w k)
          \<and> (\<forall>j < N. \<not> float_less (val_loss_of T (after_epochs T w j))
                                   (val_loss_of T (after_epochs T w k)))
          \<and> (\<forall>j < k. val_loss_of T (after_epochs T w j) = NaN
                      \<or> float_less (val_loss_of T (after_epochs T w k))
                           (val_loss_of T (after_epochs T w j)))))
   \<and> (\<forall>N. (\<forall>j < N. \<not> float_less (val_loss_of T (after_epochs T w j)) PInf) \<longrightarrow>
         best_checkpoint (after_epochs T w N) = None
       \<and> best_val_loss (after_epochs T w N) = PInf)
   \<and> 1 \<le> epochs_done (run_training T w)
   \<and> run_training T w = after_epochs T w (epochs_done (run_training T w))"
proof (intro conjI allI impI)
  fix s
  show "if float_less (val_loss_of T s) (best_val_loss s)
        then best_checkpoint (epoch_body T s) = Some (params_of T s)
           \<and> early_stop_counter (epoch_body T s) = 0
           \<and> best_val_loss (epoch_body T s) = val_loss_of T s
        else best_checkpoint (epoch_body T s) = best_checkpoint s
           \<and> early_stop_counter (epoch_body T s) = early_stop_counter s + 1
           \<and> best_val_loss (epoch_body T s) = best_val_loss s"
    using epoch_body_improved[of T s] epoch_body_not_improved[of T s]
    by (simp add: improves_def)
next
  fix N assume "\<exists>j < N. float_less (val_loss_of T (after_epochs T w j)) PInf"
  with best_after_epochs[of N T w]
  show "\<exists>k < N.
            float_less (val_loss_of T (after_epochs T w k)) PInf
          \<and> best_checkpoint (after_epochs T w N) = Some (params_of T (after_epochs T w k))
          \<and> best_val_loss (after_epochs T w N) = val_loss_of T (after_epochs T w k)
          \<and> (\<forall>j < N. \<not> float_less (val_loss_of T (after_epochs T w j))
                                   (val_loss_of T (after_epochs T w k)))
          \<and> (\<forall>j < k. val_loss_of T (after_epochs T w j) = NaN
                      \<or> float_less (val_loss_of T (after_epochs T w k))
                           (val_loss_of T (after_epochs T w j)))"
    by blast
next
  fix N assume none: "\<forall>j < N. \<not> float_less (val_loss_of T (after_epochs T w j)) PInf"
  with best_after_epochs[of N T w]
  show "best_checkpoint (after_epochs T w N) = None" by blast
  from none best_after_epochs[of N T w]
  show "best_val_loss (after_epochs T w N) = PInf" by blast
next
  from run_training_char[of T w] show "1 \<le> epochs_done (run_training T w)"
    by (auto simp: num_epochs_def)
  from run_training_char[of T w]
  show "run_training T w = after_epochs T w (epochs_done (run_training T w))" by auto
qed

theorem best_checkpoint_invariant_witness:
  "best_checkpoint (after_epochs
        \<lparr>train_phase = Suc, validation_phase = (\<lambda>w. (if w = 2 then Fin 1 else Fin 5, w)),
         state_dict = (\<lambda>w. w), scheduler_step = (\<lambda>l w. w)\<rparr> (0::nat) 3) = Some (2::nat)
   \<and> (\<exists>k < 3. Some (2::nat) = Some (params_of
        \<lparr>train_phase = Suc, validation_phase = (\<lambda>w. (if w = 2 then Fin 1 else Fin 5, w)),
         state_dict = (\<lambda>w. w), scheduler_step = (\<lambda>l w. w)\<rparr>
        (after_epochs
        \<lparr>train_phase = Suc, validation_phase = (\<lambda>w. (if w = 2 then Fin 1 else Fin 5, w)),
         state_dict = (\<lambda>w. w), scheduler_step = (\<lambda>l w. w)\<rparr> (0::nat) k)))"
proof -
  let ?T = "\<lparr>train_phase = Suc, validation_phase = (\<lambda>w. (if w = 2 then Fin 1 else Fin 5, w)),
         state_dict = (\<lambda>w. w), scheduler_step = (\<lambda>l w. w)\<rparr> :: (nat, nat) trainer"
  have run: "best_checkpoint (after_epochs ?T 0 3) = Some 2"
    by (simp add: after_epochs_def eval_nat_numeral epoch_body_def checkpoint_decision_def
        initial_state_def)
  have "float_less (val_loss_of ?T (after_epochs ?T 0 0)) PInf"
    by (simp add: after_epochs_def val_loss_of_def initial_state_def)
  then have "\<exists>j < 3. float_less (val_loss_of ?T (after_epochs ?T 0 j)) PInf"
    by (intro exI[of _ 0]) simp
  with best_checkpoint_invariant [of ?T 0]
  have "\<exists>k < 3. best_checkpoint (after_epochs ?T 0 3) = Some (params_of ?T (after_epochs ?T 0 k))"
    by blast
  with run show ?thesis by simp
qed

text \<open>
  As the claim is worded, there is a checkpoint of the best epoch after every
  number of completed epochs. When every validation loss is NaN, no pass saves
  anything: after two passes there is no checkpoint and the counter is 2, and the
  loop ends after ten passes without a checkpoint.
\<close>

theorem best_checkpoint_invariant_counterexample:
  "best_checkpoint (after_epochs
        \<lparr>train_phase = Suc, validation_phase = (\<lambda>w. (NaN, w)),
         state_dict = (\<lambda>w. w), scheduler_step = (\<lambda>l w. w)\<rparr> (0::nat) 2) = (None :: nat option)
   \<and> early_stop_counter (after_epochs
        \<lparr>train_phase = Suc, validation_phase = (\<lambda>w. (NaN, w)),
         state_dict = (\<lambda>w. w :: nat), scheduler_step = (\<lambda>l w. w)\<rparr> (0::nat) 2) = 2
   \<and> run_training \<lparr>train_phase = Suc, validation_phase = (\<lambda>w. (NaN, w)),
                     state_dict = (\<lambda>w. w), scheduler_step = (\<lambda>l w. w)\<rparr> (0::nat) =
        \<lparr>world = 10, best_val_loss = PInf, early_stop_counter = 10,
         best_checkpoint = (None :: nat option), epochs_done = 10\<rparr>"
  by (simp add: after_epochs_def run_training_def num_epochs_def patience_def epoch_body_def
      checkpoint_decision_def initial_state_def eval_nat_numeral)

text \<open>
  Claim C5. The loop completes at least one and at most 50 epochs. No epoch before
  the last one ends with the counter at the patience of 10; the counter never
  exceeds 10; if the loop ends before the 50th epoch, it ends with the counter at
  10. Whenever it ends with the counter at 10, at least 10 epochs have run and none
  of the last 10 improved on the best validation loss. Conversely, once ten epochs
  in a row have not improved on the best validation loss, the loop does not run
  beyond the tenth of them. An epoch does not improve when its loss is NaN, or when
  it is not below the best loss so far, which is \<open>+inf\<close> until a pass has saved.
\<close>

theorem training_loop_stops:
  "num_epochs = 50 \<and> patience = 10
   \<and> 1 \<le> epochs_done (run_training T w) \<and> epochs_done (run_training T w) \<le> 50
   \<and> run_training T w = after_epochs T w (epochs_done (run_training T w))
   \<and> (\<forall>m. 0 < m \<and> m < epochs_done (run_training T w) \<longrightarrow>
         early_stop_counter (after_epochs T w m) < 10)
   \<and> early_stop_counter (run_training T w) \<le> 10
   \<and> (epochs_done (run_training T w) < 50 \<longrightarrow> early_stop_counter (run_training T w) = 10)
   \<and> (early_stop_counter (run_training T w) = 10 \<longrightarrow>
         10 \<le> epochs_done (run_training T w)
       \<and> (\<forall>j. epochs_done (run_training T w) - 10 \<le> j \<and> j < epochs_done (run_training T w) \<longrightarrow>
             \<not> float_less (val_loss_of T (after_epochs T w j))
                  (best_val_loss (after_epochs T w j))))
   \<and> (\<forall>m. 10 \<le> m
          \<and> (\<forall>j. m - 10 \<le> j \<and> j < m \<longrightarrow>
                 \<not> float_less (val_loss_of T (after_epochs T w j))
                      (best_val_loss (after_epochs T w j))) \<longrightarrow>
         epochs_done (run_training T w) \<le> m)"
proof -
  let ?fs = "run_training T w"
  let ?n = "epochs_done ?fs"
  from run_training_char[of T w] have
    m: "?n \<le> 50" "?fs = after_epochs T w ?n"
       "\<forall>j. 0 < j \<and> j < ?n \<longrightarrow> early_stop_counter (after_epochs T w j) < 10"
       "?n < 50 \<longrightarrow> 0 < ?n \<and> 10 \<le> early_stop_counter (after_epochs T w ?n)"
    by (auto simp: num_epochs_def patience_def)
  have pos: "1 \<le> ?n" using m(1,4) by auto
  then obtain n' where n': "?n = Suc n'" by (cases ?n) auto
  have prev: "early_stop_counter (after_epochs T w n') < 10"
  proof (cases "n' = 0")
    case True
    then show ?thesis by (simp add: after_epochs_0 initial_state_def)
  next
    case False
    with m(3) n' show ?thesis by simp
  qed
  have "early_stop_counter (after_epochs T w (Suc n')) \<le> early_stop_counter (after_epochs T w n') + 1"
    using counter_step[OF counter_nonneg, of T T w n'] by (simp add: after_epochs_Suc)
  with prev have "early_stop_counter (after_epochs T w ?n) \<le> 10" by (simp add: n')
  with m(2) have le: "early_stop_counter ?fs \<le> 10" by simp
  have early: "?n < 50 \<longrightarrow> early_stop_counter ?fs = 10"
    using m(2,4) le by auto
  have stale: "10 \<le> ?n
       \<and> (\<forall>j. ?n - 10 \<le> j \<and> j < ?n \<longrightarrow>
             \<not> float_less (val_loss_of T (after_epochs T w j))
                  (best_val_loss (after_epochs T w j)))"
    if c: "early_stop_counter ?fs = 10"
  proof -
    from c m(2) have c': "early_stop_counter (after_epochs T w ?n) = 10" by simp
    from counter_below_epochs[of T w ?n] c' have n10: "10 \<le> ?n" by simp
    have "\<not> float_less (val_loss_of T (after_epochs T w j)) (best_val_loss (after_epochs T w j))"
      if "?n - 10 \<le> j \<and> j < ?n" for j
    proof -
      from that n10 have "int ?n - early_stop_counter (after_epochs T w ?n) \<le> int j \<and> j < ?n"
        unfolding c' by linarith
      with counter_counts_stale_epochs[of ?n T w] show ?thesis
        by (simp add: improves_def)
    qed
    with n10 show ?thesis by blast
  qed
  have stop: "?n \<le> k"
    if k: "10 \<le> k" "\<forall>j. k - 10 \<le> j \<and> j < k \<longrightarrow>
                 \<not> float_less (val_loss_of T (after_epochs T w j))
                      (best_val_loss (after_epochs T w j))" for k
  proof (rule ccontr)
    assume "\<not> ?n \<le> k"
    with k(1) have "0 < k \<and> k < ?n" by simp
    with m(3) have "early_stop_counter (after_epochs T w k) < 10" by blast
    moreover from stale_epochs_counted[of 10 k T w] k
    have "int 10 \<le> early_stop_counter (after_epochs T w k)" by (simp add: improves_def)
    ultimately show False by simp
  qed
  from m(1,2,3) pos le early stale stop show ?thesis
    by (simp add: num_epochs_def patience_def)
qed

theorem training_loop_stops_witness:
  "early_stop_counter (run_training
        \<lparr>train_phase = Suc, validation_phase = (\<lambda>w. (if w = 2 then Fin 1 else Fin 5, w)),
         state_dict = (\<lambda>w. w), scheduler_step = (\<lambda>l w. w)\<rparr> (0::nat)) = 10
   \<and> epochs_done (run_training
        \<lparr>train_phase = Suc, validation_phase = (\<lambda>w. (if w = 2 then Fin 1 else Fin 5, w)),
         state_dict = (\<lambda>w. w :: nat), scheduler_step = (\<lambda>l w. w)\<rparr> (0::nat)) = 12
   \<and> 10 \<le> epochs_done (run_training
        \<lparr>train_phase = Suc, validation_phase = (\<lambda>w. (if w = 2 then Fin 1 else Fin 5, w)),
         state_dict = (\<lambda>w. w :: nat), scheduler_step = (\<lambda>l w. w)\<rparr> (0::nat))"
proof -
  let ?T = "\<lparr>train_phase = Suc, validation_phase = (\<lambda>w. (if w = 2 then Fin 1 else Fin 5, w)),
         state_dict = (\<lambda>w. w), scheduler_step = (\<lambda>l w. w)\<rparr> :: (nat, nat) trainer"
  have run: "run_training ?T 0 =
    \<lparr>world = 12, best_val_loss = Fin 1, early_stop_counter = 10, best_checkpoint = Some 2,
     epochs_done = 12\<rparr>"
    by (simp add: run_training_def num_epochs_def patience_def epoch_body_def
        checkpoint_decision_def initial_state_def eval_nat_numeral)
  then have c: "early_stop_counter (run_training ?T 0) = 10" by simp
  with training_loop_stops [of ?T 0] have "10 \<le> epochs_done (run_training ?T 0)" by blast
  with run show ?thesis by simp
qed

end
